theory Spec2Isabelle
  imports Main "HOL-Library.Word" "HOL-Library.Sublist"
begin

unbundle bit_operations_syntax

section \<open>Strings of the runtime\<close>

text \<open>
  A JavaScript string is a sequence of 16-bit code units; a chunk read from the
  response body (a \<^verbatim>\<open>Uint8Array\<close>) is a sequence of bytes.
\<close>

type_synonym jsstring = "16 word list"

type_synonym bytes = "8 word list"

definition ascii :: "string \<Rightarrow> jsstring" where
  "ascii s = map of_char s"

text \<open>
  \<^verbatim>\<open>String.prototype.trim\<close> strips, at both ends, the code units of
  ECMAScript's WhiteSpace and LineTerminator productions.
\<close>

definition isWhiteSpace :: "16 word \<Rightarrow> bool" where
  "isWhiteSpace c \<longleftrightarrow>
     c = 0x09 \<or> c = 0x0A \<or> c = 0x0B \<or> c = 0x0C \<or> c = 0x0D \<or> c = 0x20 \<or> c = 0xA0
     \<or> c = 0x1680 \<or> (0x2000 \<le> c \<and> c \<le> 0x200A) \<or> c = 0x2028 \<or> c = 0x2029
     \<or> c = 0x202F \<or> c = 0x205F \<or> c = 0x3000 \<or> c = 0xFEFF"

definition trim :: "jsstring \<Rightarrow> jsstring" where
  "trim s = rev (dropWhile isWhiteSpace (rev (dropWhile isWhiteSpace s)))"

definition startsWith :: "jsstring \<Rightarrow> jsstring \<Rightarrow> bool" where
  "startsWith s p \<longleftrightarrow> prefix p s"

definition substring :: "jsstring \<Rightarrow> nat \<Rightarrow> jsstring" where
  "substring s n = drop n s"

text \<open>
  \<^verbatim>\<open>String.prototype.split\<close> with a non-empty separator string: the text is
  scanned from the left, \<open>acc\<close> holds (reversed) the piece read since the last
  separator, and a separator found at the scanning position closes the piece and
  is skipped whole. The result always has at least one piece.
\<close>

function splitFrom :: "jsstring \<Rightarrow> jsstring \<Rightarrow> jsstring \<Rightarrow> jsstring list" where
  "splitFrom sep acc s =
     (if s = [] then [rev acc]
      else if sep \<noteq> [] \<and> prefix sep s then rev acc # splitFrom sep [] (drop (length sep) s)
      else splitFrom sep (hd s # acc) (tl s))"
  by pat_completeness auto
termination
  by (relation "measure (\<lambda>(sep, acc, s). length s)") auto

declare splitFrom.simps [simp del]

definition split :: "jsstring \<Rightarrow> jsstring \<Rightarrow> jsstring list" where
  "split s sep = splitFrom sep [] s"

section \<open>The platform's text decoder\<close>

text \<open>
  \<^verbatim>\<open>new TextDecoder()\<close> is the UTF-8 decoder of the Encoding standard in
  replacement mode. Its state survives between \<^verbatim>\<open>decode(value, {stream: true})\<close>
  calls: the code point under construction, the continuation bytes seen and
  needed, the bounds of the next continuation byte, and whether the byte order
  mark position has passed.
\<close>

record decoder =
  codePoint :: "32 word"
  bytesSeen :: nat
  bytesNeeded :: nat
  lowerBoundary :: "8 word"
  upperBoundary :: "8 word"
  bomSeen :: bool

definition newTextDecoder :: decoder where
  "newTextDecoder =
     \<lparr>codePoint = 0, bytesSeen = 0, bytesNeeded = 0,
      lowerBoundary = 0x80, upperBoundary = 0xBF, bomSeen = False\<rparr>"

definition resetSequence :: "decoder \<Rightarrow> decoder" where
  "resetSequence d =
     d\<lparr>codePoint := 0, bytesSeen := 0, bytesNeeded := 0,
       lowerBoundary := 0x80, upperBoundary := 0xBF\<rparr>"

text \<open>A byte read while no sequence is open; the result lists the code points emitted.\<close>

definition leadByte :: "decoder \<Rightarrow> 8 word \<Rightarrow> decoder \<times> 32 word list" where
  "leadByte d b =
     (if b \<le> 0x7F then (d, [ucast b])
      else if 0xC2 \<le> b \<and> b \<le> 0xDF then
        (d\<lparr>bytesNeeded := 1, codePoint := ucast (b AND 0x1F)\<rparr>, [])
      else if 0xE0 \<le> b \<and> b \<le> 0xEF then
        (d\<lparr>lowerBoundary := (if b = 0xE0 then 0xA0 else lowerBoundary d),
           upperBoundary := (if b = 0xED then 0x9F else upperBoundary d),
           bytesNeeded := 2, codePoint := ucast (b AND 0xF)\<rparr>, [])
      else if 0xF0 \<le> b \<and> b \<le> 0xF4 then
        (d\<lparr>lowerBoundary := (if b = 0xF0 then 0x90 else lowerBoundary d),
           upperBoundary := (if b = 0xF4 then 0x8F else upperBoundary d),
           bytesNeeded := 3, codePoint := ucast (b AND 0x7)\<rparr>, [])
      else (d, [0xFFFD]))"

text \<open>
  One byte of input. A byte outside the bounds of an open sequence ends the
  sequence with U+FFFD and is then read again as a lead byte.
\<close>

definition decodeByte :: "decoder \<Rightarrow> 8 word \<Rightarrow> decoder \<times> 32 word list" where
  "decodeByte d b =
     (if bytesNeeded d = 0 then leadByte d b
      else if \<not> (lowerBoundary d \<le> b \<and> b \<le> upperBoundary d) then
        (let (d', out) = leadByte (resetSequence d) b in (d', 0xFFFD # out))
      else
        (let cp = push_bit 6 (codePoint d) OR ucast (b AND 0x3F);
             d' = d\<lparr>lowerBoundary := 0x80, upperBoundary := 0xBF,
                    codePoint := cp, bytesSeen := bytesSeen d + 1\<rparr>
         in if bytesSeen d' \<noteq> bytesNeeded d' then (d', [])
            else (resetSequence d', [cp])))"

text \<open>A code point as the code units of the string: a surrogate pair above U+FFFF.\<close>

definition codeUnits :: "32 word \<Rightarrow> jsstring" where
  "codeUnits cp =
     (if cp < 0x10000 then [ucast cp]
      else [ucast (0xD800 + drop_bit 10 (cp - 0x10000)),
            ucast (0xDC00 + ((cp - 0x10000) AND 0x3FF))])"

text \<open>
  Appending the emitted code points to the output: the first code point of the
  stream is dropped when it is the byte order mark U+FEFF.
\<close>

fun serialize :: "bool \<Rightarrow> 32 word list \<Rightarrow> bool \<times> jsstring" where
  "serialize seen [] = (seen, [])"
| "serialize seen (cp # cps) =
     (if \<not> seen \<and> cp = 0xFEFF then serialize True cps
      else (let (seen', out) = serialize True cps in (seen', codeUnits cp @ out)))"

text \<open>\<^verbatim>\<open>decoder.decode(value, { stream: true })\<close>: the decoder after the chunk, and its text.\<close>

fun decode :: "decoder \<Rightarrow> bytes \<Rightarrow> decoder \<times> jsstring" where
  "decode d [] = (d, [])"
| "decode d (b # bs) =
     (let (d1, cps) = decodeByte d b;
          (seen, out) = serialize (bomSeen d1) cps;
          (d2, rest) = decode (d1\<lparr>bomSeen := seen\<rparr>) bs
      in (d2, out @ rest))"

section \<open>Values, errors and the runtime's services\<close>

text \<open>
  The values \<^verbatim>\<open>JSON.parse\<close> returns, and \<^verbatim>\<open>undefined\<close>, which reading a
  missing property yields. The client never computes with a number, so numbers
  are carried as integers.
\<close>

datatype jsval =
  JUndefined | JNull | JBool bool | JNum int | JStr jsstring
  | JArr "jsval list" | JObj "(jsstring \<times> jsval) list"

text \<open>
  What a \<^verbatim>\<open>throw\<close> carries: an object for which \<^verbatim>\<open>instanceof Error\<close> holds
  (a \<^verbatim>\<open>DOMException\<close> is one), with its \<^verbatim>\<open>name\<close> and \<^verbatim>\<open>message\<close>, or any
  other value.
\<close>

datatype thrown = ErrorObject (errName: jsstring) (errMessage: jsstring) | NotAnError jsval

text \<open>
  The services of the runtime the client calls and the repository does not
  define: \<^verbatim>\<open>JSON.parse\<close> (\<open>Inl\<close> is the SyntaxError it throws), the message
  texts of the engine's own errors, whether \<^verbatim>\<open>AbortSignal.any\<close> and
  \<^verbatim>\<open>AbortSignal.timeout\<close> are functions, and the text of the number
  \<^verbatim>\<open>timeout / 1000\<close> in a template string.
\<close>

record platform =
  jsonParse :: "jsstring \<Rightarrow> thrown + jsval"
  readErrorMessage :: "jsval \<Rightarrow> jsstring \<Rightarrow> jsstring"
  domExceptionMessage :: "jsstring \<Rightarrow> jsstring"
  hasSignalAny :: bool
  hasSignalTimeout :: bool
  secondsText :: "nat \<Rightarrow> jsstring"

text \<open>
  Reading a property: a TypeError on \<^verbatim>\<open>null\<close> and \<^verbatim>\<open>undefined\<close>, the own
  property of an object, and \<^verbatim>\<open>undefined\<close> otherwise (the client reads only
  \<^verbatim>\<open>type\<close>, \<^verbatim>\<open>data\<close>, \<^verbatim>\<open>status\<close> and \<^verbatim>\<open>message\<close>, which no prototype of a
  string, number, boolean, array or plain object defines).
\<close>

fun getProp :: "platform \<Rightarrow> jsval \<Rightarrow> jsstring \<Rightarrow> thrown + jsval" where
  "getProp P JUndefined k = Inl (ErrorObject (ascii ''TypeError'') (readErrorMessage P JUndefined k))"
| "getProp P JNull k = Inl (ErrorObject (ascii ''TypeError'') (readErrorMessage P JNull k))"
| "getProp P (JObj kvs) k = Inr (case map_of kvs k of None \<Rightarrow> JUndefined | Some v \<Rightarrow> v)"
| "getProp P v k = Inr JUndefined"

text \<open>The text of a non-negative integer in a template string.\<close>

function decimal :: "nat \<Rightarrow> jsstring" where
  "decimal n = (if n < 10 then [of_nat (48 + n)] else decimal (n div 10) @ [of_nat (48 + n mod 10)])"
  by pat_completeness auto
termination
  by (relation "measure id") auto

declare decimal.simps [simp del]

section \<open>The streaming client\<close>

subsection \<open>Event types, handlers and what a call of the client does\<close>

definition StreamEventType_STATUS :: jsstring where "StreamEventType_STATUS = ascii ''status''"
definition StreamEventType_TOKEN :: jsstring where "StreamEventType_TOKEN = ascii ''token''"
definition StreamEventType_SOURCES :: jsstring where "StreamEventType_SOURCES = ascii ''sources''"
definition StreamEventType_PROGRESS :: jsstring where "StreamEventType_PROGRESS = ascii ''progress''"
definition StreamEventType_COMPLETE :: jsstring where "StreamEventType_COMPLETE = ascii ''complete''"
definition StreamEventType_ERROR :: jsstring where "StreamEventType_ERROR = ascii ''error''"
definition StreamEventType_METADATA :: jsstring where "StreamEventType_METADATA = ascii ''metadata''"

text \<open>
  A handler is a callback of the caller: applied to its arguments it returns
  (\<open>None\<close>) or throws. Every field of \<^verbatim>\<open>StreamEventHandlers\<close> is optional.
\<close>

type_synonym handler = "jsval list \<Rightarrow> thrown option"

record handlers =
  onToken :: "handler option"
  onStatus :: "handler option"
  onProgress :: "handler option"
  onComplete :: "handler option"
  onError :: "handler option"
  onMetadata :: "handler option"

datatype handlerName = OnToken | OnStatus | OnProgress | OnComplete | OnError | OnMetadata

text \<open>The signal handed to \<^verbatim>\<open>fetch\<close>: the controller's own, or its composition with a timer.\<close>

datatype signal = ControllerSignal | AnySignal nat

text \<open>
  What the client does to the world, in order: the request it sends, the handler
  calls it makes, and the lines it writes to the console.
\<close>

datatype effect =
  Fetch jsstring jsstring jsstring "jsstring list" signal
  | Invoke handlerName "jsval list"
  | ConsoleLog jsstring
  | ConsoleWarn jsstring jsval
  | ConsoleError jsstring jsstring thrown

text \<open>
  An optional call \<^verbatim>\<open>h?.(args)\<close>: without the handler the arguments are not
  evaluated; with it they are evaluated first (which may throw) and the handler
  is called.
\<close>

definition optionalCall ::
  "handler option \<Rightarrow> handlerName \<Rightarrow> (thrown + jsval list) \<Rightarrow> effect list \<times> thrown option" where
  "optionalCall h nm args =
     (case h of
        None \<Rightarrow> ([], None)
      | Some f \<Rightarrow>
          (case args of
             Inl e \<Rightarrow> ([], Some e)
           | Inr vs \<Rightarrow> ([Invoke nm vs], f vs)))"

text \<open>\<^verbatim>\<open>event.data\<close>, and the pair \<^verbatim>\<open>event.data.status, event.data.message\<close>.\<close>

definition dataArg :: "platform \<Rightarrow> jsval \<Rightarrow> thrown + jsval list" where
  "dataArg P event = (case getProp P event (ascii ''data'') of Inl e \<Rightarrow> Inl e | Inr d \<Rightarrow> Inr [d])"

definition statusArgs :: "platform \<Rightarrow> jsval \<Rightarrow> thrown + jsval list" where
  "statusArgs P event =
     (case getProp P event (ascii ''data'') of
        Inl e \<Rightarrow> Inl e
      | Inr d \<Rightarrow>
          (case getProp P d (ascii ''status'') of
             Inl e \<Rightarrow> Inl e
           | Inr st \<Rightarrow>
               (case getProp P d (ascii ''message'') of
                  Inl e \<Rightarrow> Inl e
                | Inr m \<Rightarrow> Inr [st, m])))"

text \<open>\<^verbatim>\<open>handleEvent\<close>: the effects of the dispatch, and what it throws if it throws.\<close>

definition handleEvent :: "platform \<Rightarrow> jsval \<Rightarrow> handlers \<Rightarrow> effect list \<times> thrown option" where
  "handleEvent P event h =
     (case getProp P event (ascii ''type'') of
        Inl e \<Rightarrow> ([], Some e)
      | Inr t \<Rightarrow>
          if t = JStr StreamEventType_TOKEN then optionalCall (onToken h) OnToken (dataArg P event)
          else if t = JStr StreamEventType_STATUS then optionalCall (onStatus h) OnStatus (statusArgs P event)
          else if t = JStr StreamEventType_PROGRESS then optionalCall (onProgress h) OnProgress (dataArg P event)
          else if t = JStr StreamEventType_COMPLETE then optionalCall (onComplete h) OnComplete (dataArg P event)
          else if t = JStr StreamEventType_ERROR then optionalCall (onError h) OnError (dataArg P event)
          else if t = JStr StreamEventType_METADATA then optionalCall (onMetadata h) OnMetadata (dataArg P event)
          else ([ConsoleWarn (ascii ''Unknown event type:'') t], None))"

subsection \<open>The read loop\<close>

text \<open>One line of a frame: a \<^verbatim>\<open>data: \<close> line is parsed and dispatched inside one \<^verbatim>\<open>try\<close>.\<close>

definition processLine :: "platform \<Rightarrow> handlers \<Rightarrow> jsstring \<Rightarrow> effect list" where
  "processLine P h line =
     (if startsWith line (ascii ''data: '') then
        (let data = substring line 6 in
         case jsonParse P data of
           Inl e \<Rightarrow> [ConsoleError (ascii ''Failed to parse event:'') data e]
         | Inr event \<Rightarrow>
             (case handleEvent P event h of
                (effs, None) \<Rightarrow> effs
              | (effs, Some e) \<Rightarrow> effs @ [ConsoleError (ascii ''Failed to parse event:'') data e]))
      else [])"

text \<open>One element of \<^verbatim>\<open>events\<close>: the body of the \<^verbatim>\<open>for (const eventText of events)\<close> loop.\<close>

definition processEvent :: "platform \<Rightarrow> handlers \<Rightarrow> jsstring \<Rightarrow> effect list" where
  "processEvent P h eventText =
     (if trim eventText = [] then []
      else if startsWith eventText (ascii '':'') then []
      else concat (map (processLine P h) (split eventText (ascii ''\<newline>''))))"

text \<open>\<^verbatim>\<open>buffer = events.pop() || ''\<close>: the last piece, or the empty string.\<close>

definition popOrEmpty :: "jsstring list \<Rightarrow> jsstring \<times> jsstring list" where
  "popOrEmpty events =
     (if events = [] then ([], [])
      else (if last events = [] then [] else last events, butlast events))"

text \<open>What \<^verbatim>\<open>await reader.read()\<close> settles with; a promise resolves, rejects or stays pending.\<close>

datatype readResult = Chunk bytes | Done | ReadFails thrown

datatype outcome = Resolved | Rejected thrown | Pending

text \<open>
  The \<^verbatim>\<open>while (true)\<close> loop of \<^verbatim>\<open>processStream\<close> over the results of the
  successive reads; when they run out the next read never settles.
\<close>

fun readLoop ::
  "platform \<Rightarrow> handlers \<Rightarrow> decoder \<Rightarrow> jsstring \<Rightarrow> readResult list \<Rightarrow> effect list \<times> outcome" where
  "readLoop P h d buffer [] = ([], Pending)"
| "readLoop P h d buffer (Done # rs) = ([], Resolved)"
| "readLoop P h d buffer (ReadFails e # rs) = ([], Rejected e)"
| "readLoop P h d buffer (Chunk v # rs) =
     (let (d', text) = decode d v;
          (buffer', events) = popOrEmpty (split (buffer @ text) (ascii ''\<newline>\<newline>''));
          effs = concat (map (processEvent P h) events);
          (effs', out) = readLoop P h d' buffer' rs
      in (effs @ effs', out))"

definition processStream :: "platform \<Rightarrow> readResult list \<Rightarrow> handlers \<Rightarrow> effect list \<times> outcome" where
  "processStream P body h = readLoop P h newTextDecoder [] body"

subsection \<open>The client object, the transport and \<^verbatim>\<open>streamMessage\<close>\<close>

text \<open>
  The stored configuration. \<^verbatim>\<open>timeout\<close> is \<open>None\<close> when the property holds
  \<^verbatim>\<open>undefined\<close>, which the spread in the constructor lets through.
\<close>

record config =
  apiUrl :: jsstring
  token :: jsstring
  timeout :: "nat option"
  retryAttempts :: nat
  retryDelay :: nat

datatype abortController = AbortController

record client =
  config :: config
  abortController :: "abortController option"

definition abort :: "client \<Rightarrow> client" where
  "abort c = (if abortController c \<noteq> None then c\<lparr>abortController := None\<rparr> else c)"

definition isStreaming :: "client \<Rightarrow> bool" where
  "isStreaming c \<longleftrightarrow> abortController c \<noteq> None"

text \<open>
  The signal of lines 161 to 172: the composite of the controller's signal and
  \<^verbatim>\<open>AbortSignal.timeout(this.config.timeout)\<close> where both functions exist and
  the call does not throw (it throws for \<^verbatim>\<open>undefined\<close> and beyond
  \<open>2\<^sup>5\<^sup>3 - 1\<close>), the controller's signal otherwise.
\<close>

definition makeSignal :: "platform \<Rightarrow> config \<Rightarrow> signal" where
  "makeSignal P cfg =
     (if hasSignalAny P \<and> hasSignalTimeout P then
        (case timeout cfg of
           None \<Rightarrow> ControllerSignal
         | Some ms \<Rightarrow> if ms \<le> 2 ^ 53 - 1 then AnySignal ms else ControllerSignal)
      else ControllerSignal)"

definition abortError :: "platform \<Rightarrow> thrown" where
  "abortError P = ErrorObject (ascii ''AbortError'') (domExceptionMessage P (ascii ''AbortError''))"

definition timeoutError :: "platform \<Rightarrow> thrown" where
  "timeoutError P = ErrorObject (ascii ''TimeoutError'') (domExceptionMessage P (ascii ''TimeoutError''))"

text \<open>
  Time is counted in milliseconds from the call of \<^verbatim>\<open>streamMessage\<close>. The
  transport of one call: when \<^verbatim>\<open>fetch\<close> settles and with what, each read of
  the body with the delay after which it settles, and when (if ever) the user
  calls \<^verbatim>\<open>abort()\<close>.
\<close>

record response =
  ok :: bool
  status :: nat
  statusText :: jsstring
  body :: "(nat \<times> readResult) list option"

datatype fetchResult = FetchRejects thrown | FetchResponds response | FetchHangs

record transport =
  fetchDelay :: nat
  fetchResult :: fetchResult
  userAbortAt :: "nat option"

text \<open>
  When the signal aborts and with which reason: the controller's signal on
  \<^verbatim>\<open>abort()\<close> with an AbortError, the composite on whichever of \<^verbatim>\<open>abort()\<close>
  and the timer comes first, the timer with a TimeoutError.
\<close>

definition signalFires :: "platform \<Rightarrow> signal \<Rightarrow> nat option \<Rightarrow> (nat \<times> thrown) option" where
  "signalFires P sg abortAt =
     (case sg of
        ControllerSignal \<Rightarrow> (case abortAt of None \<Rightarrow> None | Some t \<Rightarrow> Some (t, abortError P))
      | AnySignal ms \<Rightarrow>
          (case abortAt of
             None \<Rightarrow> Some (ms, timeoutError P)
           | Some t \<Rightarrow> if t \<le> ms then Some (t, abortError P) else Some (ms, timeoutError P)))"

text \<open>An operation that would settle at time \<open>t\<close> rejects with the signal's reason if the signal has aborted by then.\<close>

definition interrupted :: "(nat \<times> thrown) option \<Rightarrow> nat \<Rightarrow> thrown option" where
  "interrupted fire t =
     (case fire of None \<Rightarrow> None | Some (tf, reason) \<Rightarrow> if tf \<le> t then Some reason else None)"

text \<open>
  What the successive \<^verbatim>\<open>reader.read()\<close> calls settle with under the signal,
  from clock \<open>t\<close> on: a read still pending when the signal aborts rejects with
  its reason.
\<close>

fun observe :: "(nat \<times> thrown) option \<Rightarrow> nat \<Rightarrow> (nat \<times> readResult) list \<Rightarrow> readResult list" where
  "observe fire t [] = (case fire of None \<Rightarrow> [] | Some (tf, reason) \<Rightarrow> [ReadFails reason])"
| "observe fire t ((dl, r) # rest) =
     (case interrupted fire (t + dl) of
        Some reason \<Rightarrow> [ReadFails reason]
      | None \<Rightarrow> r # observe fire (t + dl) rest)"

text \<open>
  The \<^verbatim>\<open>try\<close> block of \<^verbatim>\<open>streamMessage\<close> after the request is sent: the
  response is awaited, its status and body are checked, and the body is handed
  to \<^verbatim>\<open>processStream\<close>. The \<^verbatim>\<open>finally\<close> of \<^verbatim>\<open>processStream\<close>
  (\<^verbatim>\<open>reader.releaseLock()\<close>) changes nothing that is modelled here.
\<close>

definition tryBlock ::
  "platform \<Rightarrow> handlers \<Rightarrow> (nat \<times> thrown) option \<Rightarrow> transport \<Rightarrow> effect list \<times> outcome" where
  "tryBlock P h fire w =
     (case fetchResult w of
        FetchHangs \<Rightarrow> (case fire of None \<Rightarrow> ([], Pending) | Some (tf, reason) \<Rightarrow> ([], Rejected reason))
      | FetchRejects e \<Rightarrow>
          (case interrupted fire (fetchDelay w) of
             Some reason \<Rightarrow> ([], Rejected reason)
           | None \<Rightarrow> ([], Rejected e))
      | FetchResponds r \<Rightarrow>
          (case interrupted fire (fetchDelay w) of
             Some reason \<Rightarrow> ([], Rejected reason)
           | None \<Rightarrow>
               if \<not> ok r then
                 ([], Rejected (ErrorObject (ascii ''Error'')
                    (ascii ''HTTP '' @ decimal (status r) @ ascii '': '' @ statusText r)))
               else
                 (case body r of
                    None \<Rightarrow> ([], Rejected (ErrorObject (ascii ''Error'') (ascii ''Response body is null'')))
                  | Some reads \<Rightarrow> processStream P (observe fire (fetchDelay w) reads) h)))"

definition timeoutPayload :: "platform \<Rightarrow> config \<Rightarrow> jsval" where
  "timeoutPayload P cfg =
     JObj [(ascii ''message'',
              JStr (ascii ''Request timed out after '' @
                (case timeout cfg of None \<Rightarrow> ascii ''NaN'' | Some ms \<Rightarrow> secondsText P ms) @
                ascii '' seconds'')),
           (ascii ''code'', JStr (ascii ''TIMEOUT'')),
           (ascii ''recoverable'', JBool True)]"

definition clientErrorPayload :: "jsstring \<Rightarrow> jsval" where
  "clientErrorPayload msg =
     JObj [(ascii ''message'', JStr msg),
           (ascii ''code'', JStr (ascii ''CLIENT_ERROR'')),
           (ascii ''recoverable'', JBool False)]"

text \<open>
  The \<^verbatim>\<open>catch\<close> block: its effects and what leaves it, which is the caught
  value rethrown unless the \<^verbatim>\<open>onError\<close> handler throws first.
\<close>

definition catchBlock :: "platform \<Rightarrow> config \<Rightarrow> handlers \<Rightarrow> thrown \<Rightarrow> effect list \<times> thrown" where
  "catchBlock P cfg h error =
     (case error of
        NotAnError v \<Rightarrow> ([], error)
      | ErrorObject nm msg \<Rightarrow>
          if nm = ascii ''AbortError'' then ([ConsoleLog (ascii ''Stream aborted by user'')], error)
          else if nm = ascii ''TimeoutError'' then
            (case optionalCall (onError h) OnError (Inr [timeoutPayload P cfg]) of
               (effs, None) \<Rightarrow> (effs, error)
             | (effs, Some e) \<Rightarrow> (effs, e))
          else
            (case optionalCall (onError h) OnError (Inr [clientErrorPayload msg]) of
               (effs, None) \<Rightarrow> (effs, error)
             | (effs, Some e) \<Rightarrow> (effs, e)))"

text \<open>
  One call of \<^verbatim>\<open>streamMessage\<close> against its transport: what the call does, how
  its promise ends, and the client object afterwards (the \<^verbatim>\<open>finally\<close> block
  clears the controller once the promise settles). The \<^verbatim>\<open>this.abort()\<close> at the
  start acts on the transport of an earlier call, which is not part of this
  call's run.
\<close>

record run =
  effects :: "effect list"
  promise :: outcome
  clientAfter :: client

definition streamMessage ::
  "platform \<Rightarrow> client \<Rightarrow> jsstring \<Rightarrow> handlers \<Rightarrow> jsstring list option \<Rightarrow> transport \<Rightarrow> run" where
  "streamMessage P c message h documentIds w =
     (let c1 = abort c;
          c2 = c1\<lparr>abortController := Some AbortController\<rparr>;
          sg = makeSignal P (config c2);
          request = Fetch (apiUrl (config c2)) (token (config c2)) message
                      (case documentIds of None \<Rightarrow> [] | Some ids \<Rightarrow> ids) sg;
          (effs, out) = tryBlock P h (signalFires P sg (userAbortAt w)) w
      in case out of
           Pending \<Rightarrow> \<lparr>effects = request # effs, promise = Pending, clientAfter = c2\<rparr>
         | Resolved \<Rightarrow>
             \<lparr>effects = request # effs, promise = Resolved,
              clientAfter = c2\<lparr>abortController := None\<rparr>\<rparr>
         | Rejected e \<Rightarrow>
             (let (ceffs, e') = catchBlock P (config c2) h e
              in \<lparr>effects = request # effs @ ceffs, promise = Rejected e',
                  clientAfter = c2\<lparr>abortController := None\<rparr>\<rparr>))"

text \<open>
  The results of the reads that settle before time \<open>T\<close>, from clock \<open>t\<close> on, and
  whether the call is still in flight at \<open>T\<close>: awaiting \<^verbatim>\<open>fetch\<close>, or awaiting a
  read after a successful response whose reads so far all delivered chunks.
\<close>

fun readsBefore :: "nat \<Rightarrow> nat \<Rightarrow> (nat \<times> readResult) list \<Rightarrow> readResult list" where
  "readsBefore T t [] = []"
| "readsBefore T t ((dl, r) # rest) = (if t + dl < T then r # readsBefore T (t + dl) rest else [])"

definition isChunk :: "readResult \<Rightarrow> bool" where
  "isChunk r = (case r of Chunk v \<Rightarrow> True | _ \<Rightarrow> False)"

definition inFlightAt :: "transport \<Rightarrow> nat \<Rightarrow> bool" where
  "inFlightAt w T =
     (case fetchResult w of
        FetchHangs \<Rightarrow> True
      | FetchRejects e \<Rightarrow> T \<le> fetchDelay w
      | FetchResponds r \<Rightarrow>
          T \<le> fetchDelay w
          \<or> (ok r \<and> (case body r of
                        None \<Rightarrow> False
                      | Some reads \<Rightarrow> list_all isChunk (readsBefore T (fetchDelay w) reads))))"

text \<open>The effects of the frames whose chunks arrived before time \<open>T\<close>.\<close>

definition receivedBefore :: "platform \<Rightarrow> handlers \<Rightarrow> transport \<Rightarrow> nat \<Rightarrow> effect list" where
  "receivedBefore P h w T =
     (case fetchResult w of
        FetchResponds r \<Rightarrow>
          (if T \<le> fetchDelay w then []
           else case body r of
                  None \<Rightarrow> []
                | Some reads \<Rightarrow> fst (processStream P (readsBefore T (fetchDelay w) reads) h))
      | _ \<Rightarrow> [])"

subsection \<open>Overlapping calls on one client\<close>

text \<open>
  The client has one \<^verbatim>\<open>abortController\<close> field for all its calls. This part
  follows that field alone while calls overlap; the frames of the calls are
  left out. Calls are numbered and a controller is named by the call that
  created it. \<open>installed\<close> is the field, \<open>abortedControllers\<close> the controllers
  whose \<^verbatim>\<open>abort()\<close> has run, \<open>unsettled\<close> the calls whose promise is pending,
  \<open>settled\<close> how the others ended, and \<open>journal\<close> the effects of the
  \<^verbatim>\<open>catch\<close> blocks with the call they belong to.
\<close>

record clientObject =
  installed :: "nat option"
  abortedControllers :: "nat list"
  unsettled :: "nat list"
  settled :: "(nat \<times> outcome) list"
  journal :: "(nat \<times> effect) list"

definition newClientObject :: clientObject where
  "newClientObject =
     \<lparr>installed = None, abortedControllers = [], unsettled = [], settled = [], journal = []\<rparr>"

text \<open>The method \<^verbatim>\<open>abort()\<close> (lines 308 to 313) and \<^verbatim>\<open>isStreaming()\<close>.\<close>

definition abortInstalled :: "clientObject \<Rightarrow> clientObject" where
  "abortInstalled c =
     (case installed c of
        None \<Rightarrow> c
      | Some k \<Rightarrow> c\<lparr>abortedControllers := k # abortedControllers c, installed := None\<rparr>)"

definition isStreamingNow :: "clientObject \<Rightarrow> bool" where
  "isStreamingNow c \<longleftrightarrow> installed c \<noteq> None"

text \<open>
  How the \<^verbatim>\<open>try\<close> block of a call can end: the stream ends, the signal of the
  call aborts its pending \<^verbatim>\<open>fetch\<close> or read, the timer of a composite signal
  fires, or the transport fails. What happens on the client: a call of
  \<^verbatim>\<open>streamMessage\<close> up to its \<^verbatim>\<open>await\<close>, a call of \<^verbatim>\<open>abort()\<close>, the end
  of a \<^verbatim>\<open>try\<close> block.
\<close>

datatype ending = EndOfStream | SignalAborted | TimerFired | TransportFailed thrown

datatype clientAction = CallStreamMessage nat | CallAbort | TryEnds nat ending

text \<open>
  What the ending throws into the \<^verbatim>\<open>catch\<close> block (\<open>Some None\<close>: nothing), or
  \<open>None\<close> when the ending cannot happen: a signal aborts only after \<^verbatim>\<open>abort()\<close>
  has run on its controller, and a timer fires only on a composite signal that
  has not aborted.
\<close>

definition endingThrows ::
  "platform \<Rightarrow> config \<Rightarrow> clientObject \<Rightarrow> nat \<Rightarrow> ending \<Rightarrow> thrown option option" where
  "endingThrows P cfg c k e =
     (case e of
        EndOfStream \<Rightarrow> Some None
      | SignalAborted \<Rightarrow>
          if k \<in> set (abortedControllers c) then Some (Some (abortError P)) else None
      | TimerFired \<Rightarrow>
          (case makeSignal P cfg of
             ControllerSignal \<Rightarrow> None
           | AnySignal ms \<Rightarrow>
               if k \<in> set (abortedControllers c) then None else Some (Some (timeoutError P)))
      | TransportFailed err \<Rightarrow> Some (Some err))"

text \<open>
  One step. \<^verbatim>\<open>streamMessage\<close> runs \<^verbatim>\<open>this.abort()\<close> and installs its own
  controller (lines 156 to 159). The end of a \<^verbatim>\<open>try\<close> block runs the \<^verbatim>\<open>catch\<close>
  block if something was thrown and then the \<^verbatim>\<open>finally\<close> block, which sets
  the field to \<^verbatim>\<open>null\<close> whichever call's controller it holds (lines 218 to
  220).
\<close>

definition objectStep ::
  "platform \<Rightarrow> config \<Rightarrow> handlers \<Rightarrow> clientAction \<Rightarrow> clientObject \<Rightarrow> clientObject option" where
  "objectStep P cfg h a c =
     (case a of
        CallStreamMessage k \<Rightarrow>
          if k \<in> set (unsettled c) \<or> k \<in> set (map fst (settled c)) then None
          else Some ((abortInstalled c)\<lparr>installed := Some k, unsettled := k # unsettled c\<rparr>)
      | CallAbort \<Rightarrow> Some (abortInstalled c)
      | TryEnds k e \<Rightarrow>
          if k \<notin> set (unsettled c) then None
          else
            (case endingThrows P cfg c k e of
               None \<Rightarrow> None
             | Some None \<Rightarrow>
                 Some (c\<lparr>installed := None, unsettled := remove1 k (unsettled c),
                         settled := (k, Resolved) # settled c\<rparr>)
             | Some (Some err) \<Rightarrow>
                 (let (ceffs, err') = catchBlock P cfg h err
                  in Some (c\<lparr>journal := journal c @ map (Pair k) ceffs, installed := None,
                             unsettled := remove1 k (unsettled c),
                             settled := (k, Rejected err') # settled c\<rparr>))))"

fun objectRun ::
  "platform \<Rightarrow> config \<Rightarrow> handlers \<Rightarrow> clientAction list \<Rightarrow> clientObject \<Rightarrow> clientObject option" where
  "objectRun P cfg h [] c = Some c"
| "objectRun P cfg h (a # as) c =
     (case objectStep P cfg h a c of None \<Rightarrow> None | Some c' \<Rightarrow> objectRun P cfg h as c')"

section \<open>The chat view\<close>

definition StreamStatus_STARTING :: jsstring where "StreamStatus_STARTING = ascii ''starting''"
definition StreamStatus_ERROR :: jsstring where "StreamStatus_ERROR = ascii ''error''"

text \<open>
  The state the chat view's callbacks share: the \<^verbatim>\<open>useState\<close> cells, the refs
  of the view and of its token batcher, the module's session counter, the
  \<^verbatim>\<open>isStreaming\<close> cell and client ref of \<^verbatim>\<open>useStreamingChat\<close>, the document
  selection, and the last handle \<^verbatim>\<open>requestAnimationFrame\<close> returned. The
  session counter is a JavaScript number, exact below \<open>2\<^sup>5\<^sup>3\<close>; it is a
  natural number here.
\<close>

datatype setter = SetStreamingResponse

record chat =
  streamSessionId :: nat
  message :: jsstring
  streamingResponse :: jsstring
  pendingMessage :: "jsstring option"
  streamingStatus :: "jsstring option"
  streamError :: "jsstring option"
  currentSessionRef :: nat
  pendingTokens :: jsstring
  rafId :: "nat option"
  setterRef :: "setter option"
  streaming :: bool
  clientRef :: bool
  selectedDocuments :: "jsstring list"
  lastFrameHandle :: nat

subsection \<open>The token batcher\<close>

definition flush :: "chat \<Rightarrow> chat" where
  "flush s =
     (let s1 = (if pendingTokens s \<noteq> [] \<and> setterRef s \<noteq> None
                then s\<lparr>pendingTokens := [],
                       streamingResponse := streamingResponse s @ pendingTokens s\<rparr>
                else s)
      in s1\<lparr>rafId := None\<rparr>)"

definition addToken :: "jsstring \<Rightarrow> setter \<Rightarrow> chat \<Rightarrow> chat" where
  "addToken tok st s =
     (let s1 = s\<lparr>setterRef := Some st, pendingTokens := pendingTokens s @ tok\<rparr>
      in if rafId s1 = None
         then s1\<lparr>rafId := Some (Suc (lastFrameHandle s1)), lastFrameHandle := Suc (lastFrameHandle s1)\<rparr>
         else s1)"

definition reset :: "chat \<Rightarrow> chat" where
  "reset s = (if rafId s \<noteq> None then s\<lparr>rafId := None\<rparr> else s)\<lparr>pendingTokens := []\<rparr>"

subsection \<open>\<^verbatim>\<open>handleSubmit\<close> and the callbacks it binds to its session\<close>

datatype uiEffect =
  PreventDefault
  | StreamMessageCall jsstring nat "jsstring list"

text \<open>
  \<^verbatim>\<open>handleSubmit\<close> up to its \<^verbatim>\<open>await\<close>, with the synchronous start of the
  hook's \<^verbatim>\<open>streamMessage\<close> (which sets \<^verbatim>\<open>isStreaming\<close> unless the client ref
  is empty, when it throws into the \<^verbatim>\<open>catch\<close> block instead). The call carries
  the session number its callbacks are bound to.
\<close>

definition handleSubmit :: "chat \<Rightarrow> chat \<times> uiEffect list" where
  "handleSubmit s =
     (if trim (message s) = [] \<or> streaming s then (s, [PreventDefault])
      else
        (let userMessage = trim (message s);
             s1 = s\<lparr>streamSessionId := streamSessionId s + 1\<rparr>;
             thisSession = streamSessionId s1;
             s2 = s1\<lparr>currentSessionRef := thisSession\<rparr>;
             s3 = s2\<lparr>message := [], pendingMessage := Some userMessage, streamingResponse := [],
                     streamingStatus := Some StreamStatus_STARTING, streamError := None\<rparr>;
             s4 = reset s3
         in if clientRef s4
            then (s4\<lparr>streaming := True\<rparr>,
                  [PreventDefault, StreamMessageCall userMessage thisSession (selectedDocuments s4)])
            else (s4, [PreventDefault])))"

definition chatOnToken :: "nat \<Rightarrow> jsstring \<Rightarrow> chat \<Rightarrow> chat" where
  "chatOnToken thisSession tok s =
     (if currentSessionRef s \<noteq> thisSession then s
      else (addToken tok SetStreamingResponse s)\<lparr>streamError := None\<rparr>)"

definition chatOnStatus :: "nat \<Rightarrow> jsstring \<Rightarrow> chat \<Rightarrow> chat" where
  "chatOnStatus thisSession st s =
     (if currentSessionRef s \<noteq> thisSession then s else s\<lparr>streamingStatus := Some st\<rparr>)"

definition chatOnProgress :: "nat \<Rightarrow> chat \<Rightarrow> chat" where
  "chatOnProgress thisSession s = s"

text \<open>
  \<^verbatim>\<open>onComplete\<close> is cut at its \<^verbatim>\<open>await refetch()\<close>: the part before says
  whether the refetch is awaited, the part after runs when the refetch has
  settled.
\<close>

definition chatOnCompleteStart :: "nat \<Rightarrow> chat \<Rightarrow> chat \<times> bool" where
  "chatOnCompleteStart thisSession s =
     (if currentSessionRef s \<noteq> thisSession then (s, False) else (s, True))"

definition chatOnCompleteResume :: "nat \<Rightarrow> chat \<Rightarrow> chat" where
  "chatOnCompleteResume thisSession s =
     (if currentSessionRef s \<noteq> thisSession then s
      else s\<lparr>streamingStatus := None, streamingResponse := [], pendingMessage := None,
             streamError := None\<rparr>)"

definition chatOnError :: "nat \<Rightarrow> jsstring \<Rightarrow> chat \<Rightarrow> chat" where
  "chatOnError thisSession msg s =
     (if currentSessionRef s \<noteq> thisSession then s
      else s\<lparr>streamingStatus := Some StreamStatus_ERROR,
             streamError := Some (if msg \<noteq> [] then msg
                                  else ascii ''An error occurred while streaming''),
             streamingResponse := [], pendingMessage := None\<rparr>)"

text \<open>The callback both \<^verbatim>\<open>setTimeout\<close> calls schedule, five seconds after an error.\<close>

definition chatErrorTimer :: "nat \<Rightarrow> chat \<Rightarrow> chat" where
  "chatErrorTimer thisSession s =
     (if currentSessionRef s \<noteq> thisSession then s
      else s\<lparr>streamingStatus := None, streamError := None\<rparr>)"

text \<open>The \<^verbatim>\<open>catch\<close> block of \<^verbatim>\<open>handleSubmit\<close>.\<close>

definition chatCatch :: "nat \<Rightarrow> thrown \<Rightarrow> chat \<Rightarrow> chat" where
  "chatCatch thisSession error s =
     (if currentSessionRef s \<noteq> thisSession then s
      else s\<lparr>streamingStatus := Some StreamStatus_ERROR,
             streamError := Some (case error of
                                    ErrorObject nm msg \<Rightarrow> msg
                                  | NotAnError v \<Rightarrow> ascii ''Failed to connect to streaming service''),
             streamingResponse := [], pendingMessage := None\<rparr>)"

subsection \<open>The event loop of the view\<close>

text \<open>
  What can run, one at a time: the user editing the text, a submission, a
  callback of the session it was bound to, the browser's animation frame (which
  runs the flush if one is scheduled), and the end of a stream (the \<^verbatim>\<open>finally\<close>
  of the hook).
\<close>

datatype callback =
  TokenEvent jsstring
  | StatusEvent jsstring
  | ProgressEvent
  | CompleteEvent
  | RefetchSettled
  | ErrorEvent jsstring
  | ErrorTimer
  | StreamRejected thrown

datatype action =
  SetMessage jsstring
  | Submit
  | Callback nat callback
  | AnimationFrame
  | StreamSettled

fun runCallback :: "nat \<Rightarrow> callback \<Rightarrow> chat \<Rightarrow> chat" where
  "runCallback k (TokenEvent tok) s = chatOnToken k tok s"
| "runCallback k (StatusEvent st) s = chatOnStatus k st s"
| "runCallback k ProgressEvent s = chatOnProgress k s"
| "runCallback k CompleteEvent s = fst (chatOnCompleteStart k s)"
| "runCallback k RefetchSettled s = chatOnCompleteResume k s"
| "runCallback k (ErrorEvent msg) s = chatOnError k msg s"
| "runCallback k ErrorTimer s = chatErrorTimer k s"
| "runCallback k (StreamRejected e) s = chatCatch k e s"

fun step :: "action \<Rightarrow> chat \<Rightarrow> chat" where
  "step (SetMessage m) s = s\<lparr>message := m\<rparr>"
| "step Submit s = fst (handleSubmit s)"
| "step (Callback k cb) s = runCallback k cb s"
| "step AnimationFrame s = (if rafId s \<noteq> None then flush s else s)"
| "step StreamSettled s = s\<lparr>streaming := False\<rparr>"

fun steps :: "action list \<Rightarrow> chat \<Rightarrow> chat" where
  "steps [] s = s"
| "steps (a # as) s = steps as (step a s)"

text \<open>The token texts delivered to the callbacks of session \<open>k\<close>, in order.\<close>

fun tokensOf :: "nat \<Rightarrow> action list \<Rightarrow> jsstring" where
  "tokensOf k [] = []"
| "tokensOf k (Callback j (TokenEvent tok) # as) = (if j = k then tok @ tokensOf k as else tokensOf k as)"
| "tokensOf k (a # as) = tokensOf k as"

text \<open>
  An action that leaves the response of session \<open>k\<close> on display: anything but a
  new submission and the three callbacks of \<open>k\<close> that clear the response (the
  part of \<^verbatim>\<open>onComplete\<close> after the refetch, \<^verbatim>\<open>onError\<close>, and the \<^verbatim>\<open>catch\<close>
  block of a rejected stream).
\<close>

fun duringSession :: "nat \<Rightarrow> action \<Rightarrow> bool" where
  "duringSession k Submit = False"
| "duringSession k (Callback j cb) =
     (j \<noteq> k \<or> (case cb of RefetchSettled \<Rightarrow> False | ErrorEvent msg \<Rightarrow> False
                | StreamRejected e \<Rightarrow> False | _ \<Rightarrow> True))"
| "duringSession k a = True"

text \<open>The batcher's invariant: text waiting in the buffer has a flush scheduled and a setter to flush to.\<close>

definition batcherReady :: "chat \<Rightarrow> bool" where
  "batcherReady s \<longleftrightarrow> (pendingTokens s = [] \<or> (rafId s \<noteq> None \<and> setterRef s \<noteq> None))"

section \<open>Sample inputs\<close>

text \<open>The view as it is mounted: the initial values of its cells and refs, the client created.\<close>

definition initialChat :: chat where
  "initialChat =
     \<lparr>streamSessionId = 0, message = [], streamingResponse = [], pendingMessage = None,
      streamingStatus = None, streamError = None, currentSessionRef = 0, pendingTokens = [],
      rafId = None, setterRef = None, streaming = False, clientRef = True,
      selectedDocuments = [], lastFrameHandle = 0\<rparr>"

text \<open>
  A first question is sent and answered with one token, its stream ends, its
  \<^verbatim>\<open>onComplete\<close> is waiting for the refetch, and the user has typed a second
  question.
\<close>

definition awaitingRefetch :: chat where
  "awaitingRefetch =
     steps [SetMessage (ascii ''one''), Submit, Callback 1 (TokenEvent (ascii ''a'')),
            Callback 1 CompleteEvent, StreamSettled, SetMessage (ascii ''two'')] initialChat"

text \<open>Handlers that all return normally.\<close>

definition returns :: handler where
  "returns args = None"

definition allHandlers :: handlers where
  "allHandlers =
     \<lparr>onToken = Some returns, onStatus = Some returns, onProgress = Some returns,
      onComplete = Some returns, onError = Some returns, onMetadata = Some returns\<rparr>"

text \<open>
  The runtime of the examples. Its \<^verbatim>\<open>JSON.parse\<close> is given on the payloads the
  examples send and throws a SyntaxError on the malformed text they use; its
  \<^verbatim>\<open>secondsText\<close> prints whole seconds.
\<close>

definition utf8 :: "string \<Rightarrow> bytes" where
  "utf8 s = map of_char s"

definition tokenHiJson :: string where
  \<open>tokenHiJson = ''{"type":"token","data":"Hi"}''\<close>

definition completeJson :: string where
  \<open>completeJson = ''{"type":"complete","data":{"total_tokens":5}}''\<close>

definition tokenHi :: jsval where
  "tokenHi = JObj [(ascii ''type'', JStr (ascii ''token'')), (ascii ''data'', JStr (ascii ''Hi''))]"

definition completeEvent :: jsval where
  "completeEvent =
     JObj [(ascii ''type'', JStr (ascii ''complete'')),
           (ascii ''data'', JObj [(ascii ''total_tokens'', JNum 5)])]"

definition syntaxError :: thrown where
  "syntaxError = ErrorObject (ascii ''SyntaxError'') (ascii ''Unexpected token'')"

definition sampleParse :: "jsstring \<Rightarrow> thrown + jsval" where
  \<open>sampleParse s =
     (if s = ascii tokenHiJson then Inr tokenHi
      else if s = ascii completeJson then Inr completeEvent
      else if s = ascii ''{"type":"token","data":"'' @ [0xE9] @ ascii ''"}''
        then Inr (JObj [(ascii ''type'', JStr (ascii ''token'')), (ascii ''data'', JStr [0xE9])])
      else Inl syntaxError)\<close>

definition samplePlatform :: platform where
  "samplePlatform =
     \<lparr>jsonParse = sampleParse,
      readErrorMessage = (\<lambda>v k. ascii ''Cannot read properties''),
      domExceptionMessage = (\<lambda>n. ascii ''The operation was aborted''),
      hasSignalAny = True, hasSignalTimeout = True,
      secondsText = (\<lambda>ms. decimal (ms div 1000))\<rparr>"

definition tokenFrame :: bytes where
  "tokenFrame = utf8 ''data: '' @ utf8 tokenHiJson @ [0x0A, 0x0A]"

definition completeFrame :: bytes where
  "completeFrame = utf8 ''data: '' @ utf8 completeJson @ [0x0A, 0x0A]"

definition sampleClient :: client where
  "sampleClient =
     \<lparr>config = \<lparr>apiUrl = ascii ''/api/chat/stream'', token = ascii ''jwt'', timeout = Some 30000,
                retryAttempts = 3, retryDelay = 1000\<rparr>,
      abortController = None\<rparr>"

definition slowTransport :: transport where
  "slowTransport =
     \<lparr>fetchDelay = 5,
      fetchResult = FetchResponds
        \<lparr>ok = True, status = 200, statusText = ascii ''OK'',
         body = Some [(10, Chunk tokenFrame), (40000, Chunk tokenFrame), (10, Done)]\<rparr>,
      userAbortAt = None\<rparr>"

definition accentFrame1 :: bytes where
  \<open>accentFrame1 = utf8 ''data: {"type":"token","data":"'' @ [0xC3]\<close>

definition accentFrame2 :: bytes where
  \<open>accentFrame2 = [0xA9] @ utf8 ''"}'' @ [0x0A, 0x0A]\<close>

definition quickTransport :: transport where
  "quickTransport =
     \<lparr>fetchDelay = 5,
      fetchResult = FetchResponds
        \<lparr>ok = True, status = 200, statusText = ascii ''OK'',
         body = Some [(10, Chunk (completeFrame @ take 10 tokenFrame)),
                      (10, Chunk (drop 10 tokenFrame @ utf8 ''data: '' @ utf8 tokenHiJson)),
                      (10, Done)]\<rparr>,
      userAbortAt = None\<rparr>"

definition malformedStream :: bytes where
  "malformedStream =
     tokenFrame @ utf8 ''id: 7\<newline>data: {bad\<newline>data: '' @ utf8 tokenHiJson @ [0x0A, 0x0A]
     @ completeFrame"

text \<open>
  The client after a second call has replaced a first one and the first has
  ended with its AbortError: the second call is in flight, the field is empty.
\<close>

definition superseded :: clientObject where
  "superseded =
     \<lparr>installed = None, abortedControllers = [1], unsettled = [2],
      settled = [(1, Rejected (abortError samplePlatform))],
      journal = [(1, ConsoleLog (ascii ''Stream aborted by user''))]\<rparr>"

section \<open>Properties of the text operations\<close>

lemma splitFrom_Nil: "splitFrom sep acc [] = [rev acc]"
  by (simp add: splitFrom.simps)

lemma splitFrom_match:
  "s \<noteq> [] \<Longrightarrow> sep \<noteq> [] \<Longrightarrow> prefix sep s \<Longrightarrow>
   splitFrom sep acc s = rev acc # splitFrom sep [] (drop (length sep) s)"
  by (subst splitFrom.simps) simp

lemma splitFrom_skip:
  "s \<noteq> [] \<Longrightarrow> \<not> (sep \<noteq> [] \<and> prefix sep s) \<Longrightarrow>
   splitFrom sep acc s = splitFrom sep (hd s # acc) (tl s)"
  by (subst splitFrom.simps) auto

lemma splitFrom_nonempty: "splitFrom sep acc s \<noteq> []"
  by (induction sep acc s rule: splitFrom.induct) (subst splitFrom.simps, simp)

lemma splitFrom_rescan:
  "\<forall>i<length u. \<not> prefix sep (drop i (u @ y)) \<Longrightarrow>
   splitFrom sep acc (u @ y) = splitFrom sep (rev u @ acc) y"
proof (induction u arbitrary: acc)
  case Nil
  then show ?case by simp
next
  case (Cons x xs)
  from Cons.prems have "\<not> prefix sep (x # xs @ y)" by force
  then have "splitFrom sep acc ((x # xs) @ y) = splitFrom sep (x # acc) (xs @ y)"
    using splitFrom_skip [of "(x # xs) @ y" sep acc] by simp
  moreover from Cons.prems have "\<forall>i<length xs. \<not> prefix sep (drop i (xs @ y))" by force
  ultimately show ?case
    using Cons.IH [of "x # acc"] by simp
qed

lemma splitFrom_no_separator:
  "\<forall>i<length x. \<not> prefix sep (drop i x) \<Longrightarrow> splitFrom sep acc x = [rev acc @ x]"
  using splitFrom_rescan [of x sep "[]" acc] by (simp add: splitFrom_Nil)

lemma prefix_short:
  assumes "prefix sep (s @ y)" and "\<not> prefix sep s"
  shows "length s < length sep"
proof -
  from assms obtain us where "sep = s @ us" and "us \<noteq> []"
    by (auto simp: prefix_append)
  then show ?thesis by simp
qed

lemma splitFrom_chunk:
  "sep \<noteq> [] \<Longrightarrow> \<forall>i<length acc. \<not> prefix sep (drop i (rev acc @ x @ y)) \<Longrightarrow>
   splitFrom sep acc (x @ y)
   = butlast (splitFrom sep acc x) @ splitFrom sep [] (last (splitFrom sep acc x) @ y)"
proof (induction sep acc x rule: splitFrom.induct)
  case (1 sep acc s)
  show ?case
  proof (cases "s = []")
    case True
    have "splitFrom sep [] (rev acc @ y) = splitFrom sep acc y"
      using splitFrom_rescan [of "rev acc" sep y "[]"] "1.prems"(2) True by simp
    with True show ?thesis by (simp add: splitFrom_Nil)
  next
    case False
    show ?thesis
    proof (cases "prefix sep s")
      case True
      let ?r = "drop (length sep) s"
      have pre: "prefix sep (s @ y)" using True by (simp add: prefix_prefix)
      have dr: "drop (length sep) (s @ y) = ?r @ y"
        using True by (simp add: prefix_length_le)
      have ih: "splitFrom sep [] (?r @ y)
        = butlast (splitFrom sep [] ?r) @ splitFrom sep [] (last (splitFrom sep [] ?r) @ y)"
        using "1.IH"(1) [OF False _ "1.prems"(1)] True "1.prems"(1) by simp
      have whole: "splitFrom sep acc (s @ y) = rev acc # splitFrom sep [] (?r @ y)"
        using splitFrom_match [of "s @ y" sep acc] False pre "1.prems"(1) dr by simp
      have alone: "splitFrom sep acc s = rev acc # splitFrom sep [] ?r"
        using splitFrom_match [of s sep acc] False True "1.prems"(1) by simp
      have "butlast (splitFrom sep acc s) = rev acc # butlast (splitFrom sep [] ?r)"
        and "last (splitFrom sep acc s) = last (splitFrom sep [] ?r)"
        using alone splitFrom_nonempty [of sep "[]" ?r] by simp_all
      then show ?thesis using whole ih by simp
    next
      case notpre: False
      show ?thesis
      proof (cases "prefix sep (s @ y)")
        case True
        have short: "length s < length sep"
          using prefix_short [OF True notpre] .
        then have "\<forall>i<length s. \<not> prefix sep (drop i s)"
          by (auto dest!: prefix_length_le)
        then have alone: "splitFrom sep acc s = [rev acc @ s]"
          by (rule splitFrom_no_separator)
        have "splitFrom sep [] (rev acc @ s @ y) = splitFrom sep acc (s @ y)"
          using splitFrom_rescan [of "rev acc" sep "s @ y" "[]"] "1.prems"(2) by simp
        with alone show ?thesis by simp
      next
        case False
        obtain c cs where s: "s = c # cs" using \<open>s \<noteq> []\<close> by (cases s) auto
        have next_pre: "\<forall>i<length (hd s # acc). \<not> prefix sep (drop i (rev (hd s # acc) @ tl s @ y))"
        proof (intro allI impI)
          fix i assume "i < length (hd s # acc)"
          then consider "i < length acc" | "i = length acc" by force
          then show "\<not> prefix sep (drop i (rev (hd s # acc) @ tl s @ y))"
          proof cases
            case 1
            with "1.prems"(2) show ?thesis unfolding s by simp
          next
            case 2
            with False show ?thesis unfolding s by simp
          qed
        qed
        have ih: "splitFrom sep (hd s # acc) (tl s @ y)
          = butlast (splitFrom sep (hd s # acc) (tl s))
            @ splitFrom sep [] (last (splitFrom sep (hd s # acc) (tl s)) @ y)"
          using "1.IH"(2) [OF \<open>s \<noteq> []\<close> _ "1.prems"(1) next_pre] notpre by simp
        have whole: "splitFrom sep acc (s @ y) = splitFrom sep (hd s # acc) (tl s @ y)"
          using splitFrom_skip [of "s @ y" sep acc] False \<open>s \<noteq> []\<close> by simp
        have alone: "splitFrom sep acc s = splitFrom sep (hd s # acc) (tl s)"
          using splitFrom_skip [of s sep acc] notpre \<open>s \<noteq> []\<close> by simp
        show ?thesis unfolding whole alone by (rule ih)
      qed
    qed
  qed
qed

lemma split_chunk:
  "sep \<noteq> [] \<Longrightarrow> split (x @ y) sep = butlast (split x sep) @ split (last (split x sep) @ y) sep"
  using splitFrom_chunk [of sep "[]" x y] by (simp add: split_def)

lemma split_nonempty: "split s sep \<noteq> []"
  by (simp add: split_def splitFrom_nonempty)

lemma split_last_closed:
  assumes "sep \<noteq> []"
  shows "split (last (split x sep)) sep = [last (split x sep)]"
proof -
  have "split x sep = butlast (split x sep) @ split (last (split x sep)) sep"
    using split_chunk [OF assms, of x "[]"] by simp
  moreover have "split x sep = butlast (split x sep) @ [last (split x sep)]"
    using split_nonempty by simp
  ultimately show ?thesis by (metis same_append_eq)
qed

lemma splitFrom_set: "set (concat (splitFrom sep acc s)) \<subseteq> set acc \<union> set s"
proof (induction sep acc s rule: splitFrom.induct)
  case (1 sep acc s)
  show ?case
  proof (cases "s = []")
    case True
    then show ?thesis by (simp add: splitFrom_Nil)
  next
    case False
    show ?thesis
    proof (cases "sep \<noteq> [] \<and> prefix sep s")
      case True
      have "set (drop (length sep) s) \<subseteq> set s" by (rule set_drop_subset)
      with "1.IH"(1) [OF False True] show ?thesis
        using splitFrom_match [of s sep acc] False True by auto
    next
      case notmatch: False
      from False have "set (tl s) \<subseteq> set s" and "hd s \<in> set s"
        by (auto simp: list.set_sel)
      with "1.IH"(2) [OF False notmatch] show ?thesis
        using splitFrom_skip [of s sep acc] False notmatch by auto
    qed
  qed
qed

lemma split_set: "line \<in> set (split s sep) \<Longrightarrow> set line \<subseteq> set s"
  using splitFrom_set [of sep "[]" s] by (auto simp: split_def)

lemma splitFrom_single:
  "splitFrom [ch] acc (a @ ch # b) = splitFrom [ch] acc a @ splitFrom [ch] [] b"
proof (induction a arbitrary: acc)
  case Nil
  then show ?case
    using splitFrom_match [of "ch # b" "[ch]" acc] by (simp add: splitFrom_Nil)
next
  case (Cons x xs)
  show ?case
  proof (cases "x = ch")
    case True
    then show ?thesis
      using splitFrom_match [of "(x # xs) @ ch # b" "[ch]" acc]
        splitFrom_match [of "x # xs" "[ch]" acc] Cons.IH [of "[]"]
      by simp
  next
    case False
    then show ?thesis
      using splitFrom_skip [of "(x # xs) @ ch # b" "[ch]" acc]
        splitFrom_skip [of "x # xs" "[ch]" acc] Cons.IH [of "x # acc"]
      by simp
  qed
qed

lemma split_single: "split (a @ ch # b) [ch] = split a [ch] @ split b [ch]"
  by (simp add: split_def splitFrom_single)

lemma split_no_separator: "ch \<notin> set c \<Longrightarrow> split c [ch] = [c]"
proof -
  assume notin: "ch \<notin> set c"
  have "\<forall>i<length c. \<not> prefix [ch] (drop i c)"
  proof (intro allI impI)
    fix i assume i: "i < length c"
    then have "drop i c = c ! i # drop (Suc i) c" by (simp add: Cons_nth_drop_Suc)
    moreover have "c ! i \<noteq> ch" using notin i by auto
    ultimately show "\<not> prefix [ch] (drop i c)" by simp
  qed
  then show ?thesis using splitFrom_no_separator [of c "[ch]" "[]"] by (simp add: split_def)
qed

lemma trim_empty: "trim s = [] \<longleftrightarrow> (\<forall>c \<in> set s. isWhiteSpace c)"
proof
  assume "trim s = []"
  then have "dropWhile isWhiteSpace (rev (dropWhile isWhiteSpace s)) = []" by (simp add: trim_def)
  then have all: "\<forall>c \<in> set (dropWhile isWhiteSpace s). isWhiteSpace c"
    unfolding dropWhile_eq_Nil_conv by simp
  have "dropWhile isWhiteSpace s = []"
  proof (rule ccontr)
    assume ne: "dropWhile isWhiteSpace s \<noteq> []"
    then have "\<not> isWhiteSpace (hd (dropWhile isWhiteSpace s))" by (rule hd_dropWhile)
    moreover have "hd (dropWhile isWhiteSpace s) \<in> set (dropWhile isWhiteSpace s)"
      using ne by (rule list.set_sel(1))
    ultimately show False using all by blast
  qed
  then show "\<forall>c \<in> set s. isWhiteSpace c" unfolding dropWhile_eq_Nil_conv .
next
  assume "\<forall>c \<in> set s. isWhiteSpace c"
  then show "trim s = []" by (auto simp: trim_def dest: set_dropWhileD)
qed

lemma data_line_not_blank:
  assumes "startsWith line (ascii ''data: '')"
  shows "\<exists>c \<in> set line. \<not> isWhiteSpace c"
proof -
  from assms obtain r where "line = ascii ''data: '' @ r"
    by (auto simp: startsWith_def prefix_def)
  then have "0x64 \<in> set line" by (simp add: ascii_def)
  moreover have "\<not> isWhiteSpace 0x64" by (simp add: isWhiteSpace_def)
  ultimately show ?thesis by blast
qed

lemma processLine_not_data: "\<not> startsWith line (ascii ''data: '') \<Longrightarrow> processLine P h line = []"
  by (simp add: processLine_def)

lemma processLine_comment: "startsWith c (ascii '':'') \<Longrightarrow> processLine P h c = []"
proof (rule processLine_not_data)
  assume "startsWith c (ascii '':'')"
  then obtain r where "c = ascii '':'' @ r" by (auto simp: startsWith_def prefix_def)
  then show "\<not> startsWith c (ascii ''data: '')" by (simp add: startsWith_def ascii_def)
qed

lemma processLines_blank:
  assumes "\<forall>c \<in> set s. isWhiteSpace c"
  shows "concat (map (processLine P h) (split s sep)) = []"
proof -
  have "processLine P h line = []" if "line \<in> set (split s sep)" for line
  proof (rule processLine_not_data)
    show "\<not> startsWith line (ascii ''data: '')"
      using data_line_not_blank [of line] split_set [OF that] assms by blast
  qed
  then show ?thesis by simp
qed

lemma processEvent_lines:
  "processEvent P h eventText =
     (if startsWith eventText (ascii '':'') then []
      else concat (map (processLine P h) (split eventText (ascii ''\<newline>''))))"
  using processLines_blank [of eventText P h "ascii ''\<newline>''"]
  by (simp add: processEvent_def trim_empty)

lemma processEvent_parse_failure:
  assumes "jsonParse P payload = Inl e"
    and "split eventText (ascii ''\<newline>'') = ls1 @ [ascii ''data: '' @ payload] @ ls2"
    and "\<not> startsWith eventText (ascii '':'')"
  shows "processEvent P h eventText =
     concat (map (processLine P h) ls1)
     @ [ConsoleError (ascii ''Failed to parse event:'') payload e]
     @ concat (map (processLine P h) ls2)"
proof -
  have "processLine P h (ascii ''data: '' @ payload)
        = [ConsoleError (ascii ''Failed to parse event:'') payload e]"
    using assms(1) by (simp add: processLine_def startsWith_def substring_def ascii_def)
  then show ?thesis using assms(2,3) by (simp add: processEvent_lines)
qed

lemma processEvent_comment_line:
  assumes "startsWith c (ascii '':'')" and "0x0A \<notin> set c"
  shows "processEvent P h (a @ ascii ''\<newline>'' @ c @ ascii ''\<newline>'' @ b)
         = processEvent P h (a @ ascii ''\<newline>'' @ b)"
proof -
  have nl: "ascii ''\<newline>'' = [0x0A]" by (simp add: ascii_def)
  have first: "startsWith (a @ 0x0A # rest) (ascii '':'') \<longleftrightarrow> startsWith (a @ [0x0A]) (ascii '':'')" for rest
    by (cases a) (simp_all add: startsWith_def ascii_def)
  have lines': "split (a @ 0x0A # c @ 0x0A # b) [0x0A] = split a [0x0A] @ [c] @ split b [0x0A]"
    using split_single [of a "0x0A" "c @ 0x0A # b"] split_single [of c "0x0A" b]
      split_no_separator [OF assms(2)] by simp
  have lines: "split (a @ 0x0A # b) [0x0A] = split a [0x0A] @ split b [0x0A]"
    by (rule split_single)
  show ?thesis
    using first [of "c @ 0x0A # b"] first [of b] lines lines' processLine_comment [OF assms(1), of P h]
    by (simp add: processEvent_lines nl)
qed

lemma processEvent_comment_last:
  assumes "startsWith c (ascii '':'')" and "0x0A \<notin> set c"
  shows "processEvent P h (a @ ascii ''\<newline>'' @ c) = processEvent P h a"
proof -
  have nl: "ascii ''\<newline>'' = [0x0A]" by (simp add: ascii_def)
  have lines: "split (a @ 0x0A # c) [0x0A] = split a [0x0A] @ [c]"
    using split_single [of a "0x0A" c] split_no_separator [OF assms(2)] by simp
  show ?thesis
  proof (cases a)
    case Nil
    then show ?thesis
      using lines processLine_comment [OF assms(1), of P h]
      by (simp add: processEvent_lines nl startsWith_def ascii_def)
  next
    case (Cons x xs)
    then have "startsWith (a @ 0x0A # c) (ascii '':'') \<longleftrightarrow> startsWith a (ascii '':'')"
      by (simp add: startsWith_def ascii_def)
    then show ?thesis
      using lines processLine_comment [OF assms(1), of P h]
      by (simp add: processEvent_lines nl)
  qed
qed

lemma processEvent_comment_frame: "startsWith c (ascii '':'') \<Longrightarrow> processEvent P h c = []"
  by (simp add: processEvent_def)

section \<open>Properties of the streaming client\<close>

lemma decode_append:
  "decode d (a @ b) = (let (d1, t1) = decode d a; (d2, t2) = decode d1 b in (d2, t1 @ t2))"
  by (induction a arbitrary: d) (simp_all split: prod.splits)

lemma popOrEmpty_split: "popOrEmpty (split s sep) = (last (split s sep), butlast (split s sep))"
  by (simp add: popOrEmpty_def split_nonempty)

lemma blank_line_nonempty: "ascii ''\<newline>\<newline>'' \<noteq> []"
  by (simp add: ascii_def)

lemma readLoop_chunks:
  assumes "split buf (ascii ''\<newline>\<newline>'') = [buf]"
  shows "readLoop P h d buf (map Chunk cs @ rest) =
     (let (d', text) = decode d (concat cs);
          parts = split (buf @ text) (ascii ''\<newline>\<newline>'');
          (effs, out) = readLoop P h d' (last parts) rest
      in (concat (map (processEvent P h) (butlast parts)) @ effs, out))"
  using assms
proof (induction cs arbitrary: d buf)
  case Nil
  then show ?case by (simp split: prod.splits)
next
  case (Cons c cs)
  obtain d1 t1 where d1: "decode d c = (d1, t1)" by force
  obtain d2 t2 where d2: "decode d1 (concat cs) = (d2, t2)" by force
  let ?nn = "ascii ''\<newline>\<newline>''"
  let ?p1 = "split (buf @ t1) ?nn"
  have closed: "split (last ?p1) ?nn = [last ?p1]"
    by (rule split_last_closed [OF blank_line_nonempty])
  have whole: "decode d (concat (c # cs)) = (d2, t1 @ t2)"
    using d1 d2 by (simp add: decode_append)
  have parts: "split (buf @ t1 @ t2) ?nn = butlast ?p1 @ split (last ?p1 @ t2) ?nn"
    using split_chunk [OF blank_line_nonempty, of "buf @ t1" t2] by simp
  have ne: "split (last ?p1 @ t2) ?nn \<noteq> []" by (rule split_nonempty)
  show ?case
    using Cons.IH [OF closed, of d1] d1 d2 whole parts ne
    by (simp add: popOrEmpty_split butlast_append split: prod.splits)
qed

lemma split_empty: "split [] sep = [[]]"
  by (simp add: split_def splitFrom_Nil)

lemma processStream_chunks:
  "processStream P (map Chunk cs @ rest) h =
     (let (d', text) = decode newTextDecoder (concat cs);
          parts = split text (ascii ''\<newline>\<newline>'');
          (effs, out) = readLoop P h d' (last parts) rest
      in (concat (map (processEvent P h) (butlast parts)) @ effs, out))"
  using readLoop_chunks [of "[]" P h newTextDecoder cs rest]
  by (simp add: processStream_def split_empty)

lemma processStream_one_chunk:
  "processStream P (map Chunk cs @ rest) h = processStream P (Chunk (concat cs) # rest) h"
  using processStream_chunks [of P cs rest h] processStream_chunks [of P "[concat cs]" rest h]
  by simp

lemma processStream_done:
  "processStream P (map Chunk cs @ Done # rest) h =
     (concat (map (processEvent P h)
        (butlast (split (snd (decode newTextDecoder (concat cs))) (ascii ''\<newline>\<newline>'')))), Resolved)"
  using processStream_chunks [of P cs "Done # rest" h]
  by (simp split: prod.splits)

lemma chunks_then_done_Cons:
  "(\<exists>cs rest. r # rs = map Chunk cs @ Done # rest) \<longleftrightarrow>
   r = Done \<or> ((\<exists>v. r = Chunk v) \<and> (\<exists>cs rest. rs = map Chunk cs @ Done # rest))"
proof
  assume "\<exists>cs rest. r # rs = map Chunk cs @ Done # rest"
  then obtain cs rest where eq: "r # rs = map Chunk cs @ Done # rest" by blast
  then show "r = Done \<or> ((\<exists>v. r = Chunk v) \<and> (\<exists>cs rest. rs = map Chunk cs @ Done # rest))"
    by (cases cs) auto
next
  assume "r = Done \<or> ((\<exists>v. r = Chunk v) \<and> (\<exists>cs rest. rs = map Chunk cs @ Done # rest))"
  then show "\<exists>cs rest. r # rs = map Chunk cs @ Done # rest"
  proof
    assume "r = Done"
    then have "r # rs = map Chunk [] @ Done # rs" by simp
    then show ?thesis by blast
  next
    assume "(\<exists>v. r = Chunk v) \<and> (\<exists>cs rest. rs = map Chunk cs @ Done # rest)"
    then obtain v cs rest where "r = Chunk v" and "rs = map Chunk cs @ Done # rest" by blast
    then have "r # rs = map Chunk (v # cs) @ Done # rest" by simp
    then show ?thesis by blast
  qed
qed

lemma readLoop_resolved:
  "snd (readLoop P h d buf reads) = Resolved \<longleftrightarrow> (\<exists>cs rest. reads = map Chunk cs @ Done # rest)"
proof (induction reads arbitrary: d buf)
  case Nil
  then show ?case by simp
next
  case (Cons r rs)
  show ?case
  proof (cases r)
    case (Chunk v)
    obtain d' str where dec: "decode d v = (d', str)" by force
    obtain b' evs where pop: "popOrEmpty (split (buf @ str) (ascii ''\<newline>\<newline>'')) = (b', evs)" by force
    obtain effs out where loop: "readLoop P h d' b' rs = (effs, out)" by force
    have "(out = Resolved) = (\<exists>cs rest. rs = map Chunk cs @ Done # rest)"
      using Cons.IH [of d' b'] loop by simp
    then show ?thesis
      using Chunk dec pop loop by (simp add: chunks_then_done_Cons)
  next
    case Done
    then show ?thesis by (simp add: chunks_then_done_Cons)
  next
    case (ReadFails e)
    then show ?thesis by (simp add: chunks_then_done_Cons)
  qed
qed

lemma observe_interrupted:
  "observe (Some (T, reason)) clk reads = readsBefore T clk reads @ [ReadFails reason]"
  by (induction reads arbitrary: clk) (auto simp: interrupted_def)

lemma all_chunks: "list_all isChunk rs \<Longrightarrow> \<exists>cs. rs = map Chunk cs"
proof (induction rs)
  case Nil
  then show ?case by simp
next
  case (Cons r rs)
  then obtain cs where "rs = map Chunk cs" by auto
  moreover from Cons.prems obtain v where "r = Chunk v" by (cases r) (auto simp: isChunk_def)
  ultimately have "r # rs = map Chunk (v # cs)" by simp
  then show ?case by (rule exI)
qed

lemma processStream_interrupted:
  assumes "list_all isChunk rs"
  shows "processStream P (rs @ [ReadFails reason]) h = (fst (processStream P rs h), Rejected reason)"
proof -
  from all_chunks [OF assms] obtain cs where rs: "rs = map Chunk cs" by blast
  show ?thesis
    unfolding rs
    using processStream_chunks [of P cs "[ReadFails reason]" h] processStream_chunks [of P cs "[]" h]
    by (simp split: prod.splits)
qed

lemma tryBlock_interrupted:
  assumes "inFlightAt w T"
  shows "tryBlock P h (Some (T, reason)) w = (receivedBefore P h w T, Rejected reason)"
proof (cases "fetchResult w")
  case (FetchRejects e)
  with assms show ?thesis
    by (simp add: tryBlock_def inFlightAt_def receivedBefore_def interrupted_def)
next
  case (FetchResponds r)
  show ?thesis
  proof (cases "T \<le> fetchDelay w")
    case True
    with FetchResponds show ?thesis
      by (simp add: tryBlock_def receivedBefore_def interrupted_def)
  next
    case False
    with assms FetchResponds obtain reads where r: "ok r" "body r = Some reads"
      and chunks: "list_all isChunk (readsBefore T (fetchDelay w) reads)"
      by (auto simp: inFlightAt_def split: option.splits)
    show ?thesis
      using False FetchResponds r processStream_interrupted [OF chunks, of P reason h]
      by (simp add: tryBlock_def receivedBefore_def interrupted_def observe_interrupted)
  qed
next
  case FetchHangs
  then show ?thesis
    by (simp add: tryBlock_def receivedBefore_def)
qed

lemma catchBlock_abort:
  "catchBlock P cfg h (abortError P) = ([ConsoleLog (ascii ''Stream aborted by user'')], abortError P)"
  by (simp add: catchBlock_def abortError_def)


lemma config_abort [simp]: "config (abort c) = config c"
  by (simp add: abort_def)

lemmas transport_eval =
  streamMessage_def tryBlock_def catchBlock_def makeSignal_def signalFires_def interrupted_def
  abort_def isStreaming_def abortError_def timeoutError_def timeoutPayload_def clientErrorPayload_def
  optionalCall_def inFlightAt_def receivedBefore_def isChunk_def
  sampleClient_def slowTransport_def quickTransport_def samplePlatform_def allHandlers_def
  returns_def ascii_def Let_def

lemma streamMessage_resolved:
  assumes "promise (streamMessage P c m h ids w) = Resolved"
  shows "\<exists>r reads cs rest. fetchResult w = FetchResponds r \<and> ok r \<and> body r = Some reads
          \<and> observe (signalFires P (makeSignal P (config c)) (userAbortAt w)) (fetchDelay w) reads
              = map Chunk cs @ Done # rest"
proof -
  let ?fire = "signalFires P (makeSignal P (config c)) (userAbortAt w)"
  obtain effs out where tb: "tryBlock P h ?fire w = (effs, out)" by force
  have "out = Resolved"
    using assms tb by (cases out) (simp_all add: streamMessage_def Let_def split: prod.splits)
  with tb have res: "snd (tryBlock P h ?fire w) = Resolved" by simp
  then obtain r where r: "fetchResult w = FetchResponds r"
    by (cases "fetchResult w") (auto simp: tryBlock_def split: option.splits)
  from res r have "interrupted ?fire (fetchDelay w) = None" and "ok r"
    by (auto simp: tryBlock_def split: option.splits if_splits)
  with res r obtain reads where reads: "body r = Some reads"
    and "snd (processStream P (observe ?fire (fetchDelay w) reads) h) = Resolved"
    by (auto simp: tryBlock_def split: option.splits)
  then obtain cs rest where "observe ?fire (fetchDelay w) reads = map Chunk cs @ Done # rest"
    using readLoop_resolved [of P h newTextDecoder "[]" "observe ?fire (fetchDelay w) reads"]
    by (auto simp: processStream_def)
  with r \<open>ok r\<close> reads show ?thesis by blast
qed

text \<open>
  C3 (chunk-split invariance). However the bytes of a stream are cut into
  chunks, \<^verbatim>\<open>processStream\<close> does what it does when they arrive as one chunk:
  the same effects in the same order and the same outcome, whatever follows the
  chunks. A cut may fall inside a data line or inside a multi-byte character;
  the decoder's state and the carried buffer make up for it.
\<close>

theorem chunk_split_invariance:
  "processStream P (map Chunk cs @ rest) h = processStream P (Chunk (concat cs) # rest) h"
  by (rule processStream_one_chunk)

theorem chunk_split_invariance_witness:
  "processStream samplePlatform [Chunk accentFrame1, Chunk accentFrame2, Done] allHandlers
     = processStream samplePlatform [Chunk (accentFrame1 @ accentFrame2), Done] allHandlers
   \<and> processStream samplePlatform [Chunk accentFrame1, Chunk accentFrame2, Done] allHandlers
     = ([Invoke OnToken [JStr [0xE9]]], Resolved)"
proof -
  have a: "processStream samplePlatform [Chunk accentFrame1, Chunk accentFrame2, Done] allHandlers
     = ([Invoke OnToken [JStr [0xE9]]], Resolved)"
    by code_simp
  have b: "processStream samplePlatform [Chunk accentFrame1, Chunk accentFrame2, Done] allHandlers
     = processStream samplePlatform [Chunk (accentFrame1 @ accentFrame2), Done] allHandlers"
    using chunk_split_invariance [of samplePlatform "[accentFrame1, accentFrame2]" "[Done]" allHandlers]
    by (simp only: list.map concat.simps append.simps append_Nil2)
  show ?thesis by (rule conjI [OF b a])
qed

text \<open>
  C8 (resolution at the end of the stream). When the reader reports
  \<^verbatim>\<open>done\<close> after the chunks \<open>cs\<close>, \<^verbatim>\<open>processStream\<close> has processed every
  frame that a blank line closed, in order and whatever events they hold
  (a \<^verbatim>\<open>complete\<close> or \<^verbatim>\<open>error\<close> event ends nothing), the text after the last
  blank line is dropped, and the promise resolves. It resolves in no other case:
  only for reads that are chunks followed by \<^verbatim>\<open>done\<close>, and \<^verbatim>\<open>streamMessage\<close>
  resolves only when the response was successful, had a body, and the reads of
  that body were chunks followed by \<^verbatim>\<open>done\<close>.
\<close>

theorem end_of_stream_resolution:
  "processStream P (map Chunk cs @ Done # rest) h =
     (concat (map (processEvent P h)
        (butlast (split (snd (decode newTextDecoder (concat cs))) (ascii ''\<newline>\<newline>'')))), Resolved)
   \<and> (snd (processStream P reads h) = Resolved \<longleftrightarrow> (\<exists>cs rest. reads = map Chunk cs @ Done # rest))
   \<and> (promise (streamMessage P c m h ids w) = Resolved \<longrightarrow>
        (\<exists>r reads cs rest. fetchResult w = FetchResponds r \<and> ok r \<and> body r = Some reads
          \<and> observe (signalFires P (makeSignal P (config c)) (userAbortAt w)) (fetchDelay w) reads
              = map Chunk cs @ Done # rest))"
  using processStream_done [of P cs rest h] readLoop_resolved [of P h newTextDecoder "[]" reads]
    streamMessage_resolved [of P c m h ids w]
  by (simp add: processStream_def)

theorem end_of_stream_resolution_witness:
  "processStream samplePlatform
      [Chunk (completeFrame @ take 10 tokenFrame),
       Chunk (drop 10 tokenFrame @ utf8 ''data: '' @ utf8 tokenHiJson), Done] allHandlers
     = ([Invoke OnComplete [JObj [(ascii ''total_tokens'', JNum 5)]],
         Invoke OnToken [JStr (ascii ''Hi'')]], Resolved)
   \<and> snd (processStream samplePlatform [Chunk completeFrame] allHandlers) = Pending
   \<and> promise (streamMessage samplePlatform sampleClient (ascii ''hi'') allHandlers None quickTransport)
       = Resolved
   \<and> (\<exists>r reads cs rest. fetchResult quickTransport = FetchResponds r \<and> ok r \<and> body r = Some reads
          \<and> observe (signalFires samplePlatform (makeSignal samplePlatform (config sampleClient))
                (userAbortAt quickTransport)) (fetchDelay quickTransport) reads
              = map Chunk cs @ Done # rest)"
proof -
  have a: "processStream samplePlatform
      [Chunk (completeFrame @ take 10 tokenFrame),
       Chunk (drop 10 tokenFrame @ utf8 ''data: '' @ utf8 tokenHiJson), Done] allHandlers
     = ([Invoke OnComplete [JObj [(ascii ''total_tokens'', JNum 5)]],
         Invoke OnToken [JStr (ascii ''Hi'')]], Resolved)"
    by code_simp
  have b: "snd (processStream samplePlatform [Chunk completeFrame] allHandlers) = Pending"
    by code_simp
  have p: "processStream samplePlatform
      [Chunk (completeFrame @ take 10 tokenFrame),
       Chunk (drop 10 tokenFrame @ utf8 ''data: '' @ utf8 tokenHiJson), Done,
       ReadFails (ErrorObject (ascii ''TimeoutError'') (ascii ''The operation was aborted''))] allHandlers
     = ([Invoke OnComplete [JObj [(ascii ''total_tokens'', JNum 5)]],
         Invoke OnToken [JStr (ascii ''Hi'')]], Resolved)"
    by code_simp
  have c: "promise (streamMessage samplePlatform sampleClient (ascii ''hi'') allHandlers None quickTransport)
       = Resolved"
    using p by (simp add: transport_eval)
  note th = end_of_stream_resolution
      [of samplePlatform "[]" "[]" allHandlers "[Chunk completeFrame]" sampleClient "ascii ''hi''"
          None quickTransport]
  have d: "\<exists>r reads cs rest. fetchResult quickTransport = FetchResponds r \<and> ok r \<and> body r = Some reads
          \<and> observe (signalFires samplePlatform (makeSignal samplePlatform (config sampleClient))
                (userAbortAt quickTransport)) (fetchDelay quickTransport) reads
              = map Chunk cs @ Done # rest"
    by (rule th [THEN conjunct2, THEN conjunct2, THEN mp, OF c])
  show ?thesis by (rule conjI [OF a conjI [OF b conjI [OF c d]]])
qed

text \<open>
  C7 (malformed frames). Let a frame of the stream, not a skipped one, hold a
  data line whose payload \<^verbatim>\<open>JSON.parse\<close> rejects with \<open>e\<close>. Then the frames
  before it are processed, the lines of the frame before the bad one are
  processed, the failure is written to the console (no handler is called for
  it, so not \<^verbatim>\<open>onError\<close>), the lines after it and the frames after it are
  processed, all in order, and the promise resolves when the stream ends.
\<close>

theorem malformed_frame_resilience:
  assumes "jsonParse P payload = Inl e"
    and "split eventText (ascii ''\<newline>'') = ls1 @ [ascii ''data: '' @ payload] @ ls2"
    and "\<not> startsWith eventText (ascii '':'')"
    and "butlast (split (snd (decode newTextDecoder (concat cs))) (ascii ''\<newline>\<newline>''))
         = fs1 @ [eventText] @ fs2"
  shows "processStream P (map Chunk cs @ Done # rest) h =
     (concat (map (processEvent P h) fs1)
      @ concat (map (processLine P h) ls1)
      @ [ConsoleError (ascii ''Failed to parse event:'') payload e]
      @ concat (map (processLine P h) ls2)
      @ concat (map (processEvent P h) fs2), Resolved)"
  using processStream_done [of P cs rest h] assms(4)
    processEvent_parse_failure [OF assms(1-3), of h]
  by simp

theorem malformed_frame_resilience_witness:
  "jsonParse samplePlatform (ascii ''{bad'') = Inl syntaxError
   \<and> split (ascii ''id: 7\<newline>data: {bad\<newline>data: '' @ ascii tokenHiJson) (ascii ''\<newline>'')
       = [ascii ''id: 7''] @ [ascii ''data: '' @ ascii ''{bad''] @ [ascii ''data: '' @ ascii tokenHiJson]
   \<and> \<not> startsWith (ascii ''id: 7\<newline>data: {bad\<newline>data: '' @ ascii tokenHiJson) (ascii '':'')
   \<and> butlast (split (snd (decode newTextDecoder (concat [take 40 malformedStream, drop 40 malformedStream])))
         (ascii ''\<newline>\<newline>''))
       = [ascii ''data: '' @ ascii tokenHiJson]
         @ [ascii ''id: 7\<newline>data: {bad\<newline>data: '' @ ascii tokenHiJson]
         @ [ascii ''data: '' @ ascii completeJson]
   \<and> processStream samplePlatform
        [Chunk (take 40 malformedStream), Chunk (drop 40 malformedStream), Done] allHandlers
       = ([Invoke OnToken [JStr (ascii ''Hi'')],
           ConsoleError (ascii ''Failed to parse event:'') (ascii ''{bad'') syntaxError,
           Invoke OnToken [JStr (ascii ''Hi'')],
           Invoke OnComplete [JObj [(ascii ''total_tokens'', JNum 5)]]], Resolved)"
proof -
  have a: "jsonParse samplePlatform (ascii ''{bad'') = Inl syntaxError"
    by code_simp
  have b: "split (ascii ''id: 7\<newline>data: {bad\<newline>data: '' @ ascii tokenHiJson) (ascii ''\<newline>'')
       = [ascii ''id: 7''] @ [ascii ''data: '' @ ascii ''{bad''] @ [ascii ''data: '' @ ascii tokenHiJson]"
    by code_simp
  have c: "\<not> startsWith (ascii ''id: 7\<newline>data: {bad\<newline>data: '' @ ascii tokenHiJson) (ascii '':'')"
    by code_simp
  have d: "butlast (split (snd (decode newTextDecoder (concat [take 40 malformedStream, drop 40 malformedStream])))
         (ascii ''\<newline>\<newline>''))
       = [ascii ''data: '' @ ascii tokenHiJson]
         @ [ascii ''id: 7\<newline>data: {bad\<newline>data: '' @ ascii tokenHiJson]
         @ [ascii ''data: '' @ ascii completeJson]"
    by code_simp
  have e: "processStream samplePlatform
        [Chunk (take 40 malformedStream), Chunk (drop 40 malformedStream), Done] allHandlers
       = ([Invoke OnToken [JStr (ascii ''Hi'')],
           ConsoleError (ascii ''Failed to parse event:'') (ascii ''{bad'') syntaxError,
           Invoke OnToken [JStr (ascii ''Hi'')],
           Invoke OnComplete [JObj [(ascii ''total_tokens'', JNum 5)]]], Resolved)"
    by code_simp
  show ?thesis
    using malformed_frame_resilience [OF a b c d, of "[]" allHandlers]
    by (intro conjI a b c d e)
qed

text \<open>
  C4 (comments), amended. A frame whose text begins with \<^verbatim>\<open>:\<close> is skipped
  whole, with any data lines it holds, and a line that begins with \<^verbatim>\<open>:\<close> is
  never parsed. A comment line put into a frame after a line of the frame
  (between two lines, or as the last line) leaves the effects of the frame as
  they are, so its data lines are still parsed and dispatched. A stream whose
  closed frames are
  those of another stream with a comment frame among them has the same effects
  and outcome as the other stream.
\<close>

theorem comment_frames_and_lines:
  "(startsWith c (ascii '':'') \<longrightarrow> processLine P h c = [] \<and> processEvent P h c = [])
   \<and> (startsWith c (ascii '':'') \<and> 0x0A \<notin> set c \<longrightarrow>
        processEvent P h (a @ ascii ''\<newline>'' @ c @ ascii ''\<newline>'' @ b)
        = processEvent P h (a @ ascii ''\<newline>'' @ b)
        \<and> processEvent P h (a @ ascii ''\<newline>'' @ c) = processEvent P h a)
   \<and> (startsWith c (ascii '':'')
        \<and> butlast (split (snd (decode newTextDecoder (concat cs'))) (ascii ''\<newline>\<newline>''))
            = fs1 @ [c] @ fs2
        \<and> butlast (split (snd (decode newTextDecoder (concat cs))) (ascii ''\<newline>\<newline>''))
            = fs1 @ fs2 \<longrightarrow>
        processStream P (map Chunk cs' @ Done # rest) h
        = processStream P (map Chunk cs @ Done # rest) h)"
  using processLine_comment [of c P h] processEvent_comment_frame [of c P h]
    processEvent_comment_line [of c P h a b] processEvent_comment_last [of c P h a]
    processStream_done [of P cs' rest h] processStream_done [of P cs rest h]
  by simp

theorem comment_frames_and_lines_witness:
  "startsWith (ascii '': ping'') (ascii '':'')
   \<and> 0x0A \<notin> set (ascii '': ping'')
   \<and> processLine samplePlatform allHandlers (ascii '': ping'') = []
   \<and> processEvent samplePlatform allHandlers (ascii '': ping'') = []
   \<and> processEvent samplePlatform allHandlers
        (ascii ''id: 1'' @ ascii ''\<newline>'' @ ascii '': ping'' @ ascii ''\<newline>''
         @ (ascii ''data: '' @ ascii tokenHiJson))
       = processEvent samplePlatform allHandlers
        (ascii ''id: 1'' @ ascii ''\<newline>'' @ (ascii ''data: '' @ ascii tokenHiJson))
   \<and> processEvent samplePlatform allHandlers (ascii ''id: 1'' @ ascii ''\<newline>'' @ ascii '': ping'')
       = processEvent samplePlatform allHandlers (ascii ''id: 1'')
   \<and> processEvent samplePlatform allHandlers
        (ascii ''id: 1'' @ ascii ''\<newline>'' @ (ascii ''data: '' @ ascii tokenHiJson))
       = [Invoke OnToken [JStr (ascii ''Hi'')]]
   \<and> butlast (split (snd (decode newTextDecoder
          (concat [tokenFrame @ utf8 '': ping'' @ [0x0A, 0x0A] @ completeFrame])))
          (ascii ''\<newline>\<newline>''))
       = [ascii ''data: '' @ ascii tokenHiJson] @ [ascii '': ping'']
         @ [ascii ''data: '' @ ascii completeJson]
   \<and> butlast (split (snd (decode newTextDecoder (concat [tokenFrame @ completeFrame])))
          (ascii ''\<newline>\<newline>''))
       = [ascii ''data: '' @ ascii tokenHiJson] @ [ascii ''data: '' @ ascii completeJson]
   \<and> processStream samplePlatform
        (map Chunk [tokenFrame @ utf8 '': ping'' @ [0x0A, 0x0A] @ completeFrame] @ Done # []) allHandlers
       = processStream samplePlatform (map Chunk [tokenFrame @ completeFrame] @ Done # []) allHandlers"
proof -
  have a: "startsWith (ascii '': ping'') (ascii '':'')" by code_simp
  have b: "0x0A \<notin> set (ascii '': ping'')" by code_simp
  have c: "processEvent samplePlatform allHandlers
        (ascii ''id: 1'' @ ascii ''\<newline>'' @ (ascii ''data: '' @ ascii tokenHiJson))
       = [Invoke OnToken [JStr (ascii ''Hi'')]]" by code_simp
  have d: "butlast (split (snd (decode newTextDecoder
          (concat [tokenFrame @ utf8 '': ping'' @ [0x0A, 0x0A] @ completeFrame])))
          (ascii ''\<newline>\<newline>''))
       = [ascii ''data: '' @ ascii tokenHiJson] @ [ascii '': ping'']
         @ [ascii ''data: '' @ ascii completeJson]" by code_simp
  have e: "butlast (split (snd (decode newTextDecoder (concat [tokenFrame @ completeFrame])))
          (ascii ''\<newline>\<newline>''))
       = [ascii ''data: '' @ ascii tokenHiJson] @ [ascii ''data: '' @ ascii completeJson]"
    by code_simp
  note th = comment_frames_and_lines
    [of "ascii '': ping''" samplePlatform allHandlers "ascii ''id: 1''"
        "ascii ''data: '' @ ascii tokenHiJson"
        "[tokenFrame @ utf8 '': ping'' @ [0x0A, 0x0A] @ completeFrame]"
        "[ascii ''data: '' @ ascii tokenHiJson]" "[ascii ''data: '' @ ascii completeJson]"
        "[tokenFrame @ completeFrame]" "[]"]
  note f = th [THEN conjunct1, THEN mp, OF a]
  note g = th [THEN conjunct2, THEN conjunct1, THEN mp, OF conjI [OF a b]]
  note i = th [THEN conjunct2, THEN conjunct2, THEN mp, OF conjI [OF a conjI [OF d e]]]
  show ?thesis
    by (intro conjI a b c d e f [THEN conjunct1] f [THEN conjunct2]
          g [THEN conjunct1] g [THEN conjunct2] i)
qed

text \<open>
  C4 as stated fails where the comment is the first line of a frame: the data
  line after it is not dispatched, though it is in the same stream without the
  comment line.
\<close>

theorem comment_first_line_counterexample:
  "processStream samplePlatform
     [Chunk (utf8 '': ping\<newline>data: '' @ utf8 tokenHiJson @ [0x0A, 0x0A]), Done] allHandlers
     = ([], Resolved)
   \<and> processStream samplePlatform
     [Chunk (utf8 ''data: '' @ utf8 tokenHiJson @ [0x0A, 0x0A]), Done] allHandlers
     = ([Invoke OnToken [JStr (ascii ''Hi'')]], Resolved)"
  by code_simp

lemmas eventType_defs =
  StreamEventType_STATUS_def StreamEventType_TOKEN_def StreamEventType_SOURCES_def
  StreamEventType_PROGRESS_def StreamEventType_COMPLETE_def StreamEventType_ERROR_def
  StreamEventType_METADATA_def

text \<open>
  C9 (the \<^verbatim>\<open>sources\<close> event type). An event whose \<^verbatim>\<open>type\<close> is
  \<^verbatim>\<open>'sources'\<close>, a value of the exported \<^verbatim>\<open>StreamEventType\<close>, matches no case
  of the switch: \<^verbatim>\<open>handleEvent\<close> calls no handler, throws nothing, and only
  writes the warning of the default branch.
\<close>

theorem handleEvent_sources:
  assumes "getProp P event (ascii ''type'') = Inr (JStr StreamEventType_SOURCES)"
  shows "handleEvent P event h
         = ([ConsoleWarn (ascii ''Unknown event type:'') (JStr StreamEventType_SOURCES)], None)"
  using assms by (simp add: handleEvent_def eventType_defs ascii_def)

theorem handleEvent_sources_witness:
  "getProp samplePlatform (JObj [(ascii ''type'', JStr (ascii ''sources'')), (ascii ''data'', JArr []),
                    (ascii ''timestamp'', JStr (ascii ''t''))]) (ascii ''type'')
     = Inr (JStr StreamEventType_SOURCES)
   \<and> handleEvent samplePlatform (JObj [(ascii ''type'', JStr (ascii ''sources'')), (ascii ''data'', JArr []),
                    (ascii ''timestamp'', JStr (ascii ''t''))]) allHandlers
     = ([ConsoleWarn (ascii ''Unknown event type:'') (JStr (ascii ''sources''))], None)"
  using handleEvent_sources
    [of samplePlatform "JObj [(ascii ''type'', JStr (ascii ''sources'')), (ascii ''data'', JArr []),
                    (ascii ''timestamp'', JStr (ascii ''t''))]" allHandlers]
  by (simp add: eventType_defs ascii_def)

text \<open>
  A call that \<^verbatim>\<open>abort()\<close> reaches: let the signal of the call abort at time
  \<open>t\<close> with the AbortError, while the call is in flight. Then the effects of the
  call are its request, the effects of the frames received before \<open>t\<close>, and the
  console line of the AbortError branch, which calls no handler; the promise
  rejects with the AbortError; and \<^verbatim>\<open>isStreaming()\<close> is false after the call
  has settled and right after any \<^verbatim>\<open>abort()\<close>.
\<close>

theorem abort_reaching_the_call:
  assumes "signalFires P (makeSignal P (config c)) (userAbortAt w) = Some (t, abortError P)"
    and "inFlightAt w t"
  shows "effects (streamMessage P c m h ids w)
         = Fetch (apiUrl (config c)) (token (config c)) m (case ids of None \<Rightarrow> [] | Some ds \<Rightarrow> ds)
             (makeSignal P (config c))
           # receivedBefore P h w t @ [ConsoleLog (ascii ''Stream aborted by user'')]
       \<and> promise (streamMessage P c m h ids w) = Rejected (abortError P)
       \<and> \<not> isStreaming (clientAfter (streamMessage P c m h ids w))
       \<and> \<not> isStreaming (abort c')
       \<and> fst (catchBlock P cfg h (abortError P)) = [ConsoleLog (ascii ''Stream aborted by user'')]"
  using assms(1) tryBlock_interrupted [OF assms(2), of P h "abortError P"]
  by (simp add: streamMessage_def Let_def catchBlock_abort isStreaming_def abort_def)

theorem abort_reaching_the_call_example:
  "signalFires samplePlatform (makeSignal samplePlatform (config sampleClient))
      (userAbortAt (slowTransport\<lparr>userAbortAt := Some 20\<rparr>))
     = Some (20, abortError samplePlatform)
   \<and> inFlightAt (slowTransport\<lparr>userAbortAt := Some 20\<rparr>) 20
   \<and> receivedBefore samplePlatform allHandlers (slowTransport\<lparr>userAbortAt := Some 20\<rparr>) 20
       = [Invoke OnToken [JStr (ascii ''Hi'')]]
   \<and> effects (streamMessage samplePlatform sampleClient (ascii ''hi'') allHandlers None
        (slowTransport\<lparr>userAbortAt := Some 20\<rparr>))
       = Fetch (apiUrl (config sampleClient)) (token (config sampleClient)) (ascii ''hi'') []
           (makeSignal samplePlatform (config sampleClient))
         # [Invoke OnToken [JStr (ascii ''Hi'')]] @ [ConsoleLog (ascii ''Stream aborted by user'')]
   \<and> promise (streamMessage samplePlatform sampleClient (ascii ''hi'') allHandlers None
        (slowTransport\<lparr>userAbortAt := Some 20\<rparr>))
       = Rejected (abortError samplePlatform)
   \<and> \<not> isStreaming (abort (sampleClient\<lparr>abortController := Some AbortController\<rparr>))"
proof -
  have p: "processStream samplePlatform [Chunk tokenFrame] allHandlers
           = ([Invoke OnToken [JStr (ascii ''Hi'')]], Pending)"
    by code_simp
  have a: "signalFires samplePlatform (makeSignal samplePlatform (config sampleClient))
      (userAbortAt (slowTransport\<lparr>userAbortAt := Some 20\<rparr>))
     = Some (20, abortError samplePlatform)"
    by (simp add: transport_eval)
  have b: "inFlightAt (slowTransport\<lparr>userAbortAt := Some 20\<rparr>) 20"
    by (simp add: transport_eval)
  have c: "receivedBefore samplePlatform allHandlers (slowTransport\<lparr>userAbortAt := Some 20\<rparr>) 20
       = [Invoke OnToken [JStr (ascii ''Hi'')]]"
    using p by (simp add: receivedBefore_def slowTransport_def)
  note th = abort_reaching_the_call [OF a b, where m = "ascii ''hi''" and h = allHandlers and ids = None
        and c' = "sampleClient\<lparr>abortController := Some AbortController\<rparr>"
        and cfg = "config sampleClient"]
  note e1 = th [THEN conjunct1, unfolded c option.case]
  note e2 = th [THEN conjunct2, THEN conjunct1]
  note e3 = th [THEN conjunct2, THEN conjunct2, THEN conjunct2, THEN conjunct1]
  show ?thesis
    by (intro conjI a b c e1 e2 e3)
qed

lemmas object_eval =
  objectStep_def endingThrows_def abortInstalled_def isStreamingNow_def newClientObject_def
  superseded_def catchBlock_def optionalCall_def makeSignal_def abortError_def timeoutError_def
  timeoutPayload_def sampleClient_def samplePlatform_def allHandlers_def returns_def ascii_def Let_def

lemma finally_clears_any_controller:
  "objectStep P cfg h (TryEnds k e) c = Some c' \<Longrightarrow> installed c' = None"
  by (auto simp: objectStep_def Let_def split: if_splits option.splits prod.splits)

lemma abort_without_controller:
  "installed c = None \<Longrightarrow> objectStep P cfg h CallAbort c = Some c"
  by (simp add: objectStep_def abortInstalled_def)

text \<open>
  C5 (abort silence) fails for a stream that has replaced another on the same
  client. A second \<^verbatim>\<open>streamMessage\<close> call aborts the first and installs its
  controller; when the first call then ends with its AbortError, its
  \<^verbatim>\<open>finally\<close> block empties the field that holds the second call's
  controller. From then on \<^verbatim>\<open>isStreaming()\<close> is false while the second stream
  is in flight, \<^verbatim>\<open>abort()\<close> changes nothing and aborts no signal, so the signal
  of the second call cannot end it and its promise stays pending, and the timer
  still ends it with a call of \<^verbatim>\<open>onError\<close>.
\<close>

theorem abort_after_superseded_call:
  "objectRun samplePlatform (config sampleClient) allHandlers
      [CallStreamMessage 1, CallStreamMessage 2, TryEnds 1 SignalAborted] newClientObject
     = Some superseded
   \<and> \<not> isStreamingNow superseded
   \<and> objectStep samplePlatform (config sampleClient) allHandlers CallAbort superseded = Some superseded
   \<and> objectStep samplePlatform (config sampleClient) allHandlers (TryEnds 2 SignalAborted) superseded
       = None
   \<and> objectStep samplePlatform (config sampleClient) allHandlers (TryEnds 2 TimerFired) superseded
       = Some (superseded
            \<lparr>journal := [(1, ConsoleLog (ascii ''Stream aborted by user'')),
                          (2, Invoke OnError [timeoutPayload samplePlatform (config sampleClient)])],
             unsettled := [],
             settled := [(2, Rejected (timeoutError samplePlatform)),
                         (1, Rejected (abortError samplePlatform))]\<rparr>)"
  by (simp add: object_eval)



section \<open>Properties of the chat view\<close>

lemmas callback_defs =
  chatOnToken_def chatOnStatus_def chatOnProgress_def chatOnCompleteStart_def
  chatOnCompleteResume_def chatOnError_def chatErrorTimer_def chatCatch_def

lemmas chat_eval =
  initialChat_def awaitingRefetch_def handleSubmit_def reset_def flush_def addToken_def
  callback_defs trim_def isWhiteSpace_def ascii_def StreamStatus_STARTING_def
  StreamStatus_ERROR_def Let_def

lemma stale_callback: "currentSessionRef s \<noteq> k \<Longrightarrow> runCallback k cb s = s"
  by (cases cb) (simp_all add: callback_defs)

lemma step_session_order:
  "k < currentSessionRef s \<and> currentSessionRef s \<le> streamSessionId s \<Longrightarrow>
   k < currentSessionRef (step a s) \<and> currentSessionRef (step a s) \<le> streamSessionId (step a s)"
  apply (cases a)
      apply (simp_all add: handleSubmit_def flush_def reset_def Let_def)
  subgoal for j cb
    by (cases cb) (simp_all add: callback_defs addToken_def Let_def)
  done

lemma steps_session_order:
  "k < currentSessionRef s \<and> currentSessionRef s \<le> streamSessionId s \<Longrightarrow>
   k < currentSessionRef (steps acts s) \<and> currentSessionRef (steps acts s) \<le> streamSessionId (steps acts s)"
proof (induction acts arbitrary: s)
  case Nil
  then show ?case by simp
next
  case (Cons a acts)
  show ?case using Cons.IH [OF step_session_order [OF Cons.prems]] by simp
qed

lemma handleSubmit_new_session:
  assumes "\<not> (trim (message s) = [] \<or> streaming s)"
  shows "currentSessionRef (fst (handleSubmit s)) = streamSessionId s + 1"
    and "streamSessionId (fst (handleSubmit s)) = streamSessionId s + 1"
    and "rafId (fst (handleSubmit s)) = None"
  using assms by (simp_all add: handleSubmit_def reset_def Let_def)

text \<open>
  C1 (session isolation). Once a submission has started a new session, every
  callback bound to a session \<open>k\<close> minted earlier leaves the whole shared state
  as it is, whenever it runs afterwards: after any further actions \<open>acts\<close> of
  the view, for each of the callbacks (tokens, status, completion before and
  after its \<^verbatim>\<open>await\<close>, errors, their timers, the \<^verbatim>\<open>catch\<close> block). The part
  of \<^verbatim>\<open>onComplete\<close> after the refetch is the callback \<open>RefetchSettled\<close>: it
  compares the session again and does nothing. The flush an earlier session
  scheduled is cancelled by the submission.
\<close>

theorem session_isolation:
  assumes "k \<le> streamSessionId s" and "\<not> (trim (message s) = [] \<or> streaming s)"
  shows "runCallback k cb (steps acts (fst (handleSubmit s))) = steps acts (fst (handleSubmit s))
         \<and> step AnimationFrame (fst (handleSubmit s)) = fst (handleSubmit s)"
proof -
  let ?s = "fst (handleSubmit s)"
  have "k < currentSessionRef ?s \<and> currentSessionRef ?s \<le> streamSessionId ?s"
    using assms handleSubmit_new_session [OF assms(2)] by simp
  then have "k < currentSessionRef (steps acts ?s)"
    using steps_session_order by blast
  then have "runCallback k cb (steps acts ?s) = steps acts ?s"
    by (intro stale_callback) simp
  moreover have "step AnimationFrame ?s = ?s"
    using handleSubmit_new_session(3) [OF assms(2)] by simp
  ultimately show ?thesis by simp
qed

theorem session_isolation_witness:
  "1 \<le> streamSessionId awaitingRefetch
   \<and> \<not> (trim (message awaitingRefetch) = [] \<or> streaming awaitingRefetch)
   \<and> snd (chatOnCompleteStart 1 (steps [SetMessage (ascii ''one''), Submit] initialChat))
   \<and> runCallback 1 RefetchSettled (steps [] (fst (handleSubmit awaitingRefetch)))
       = steps [] (fst (handleSubmit awaitingRefetch))
   \<and> step AnimationFrame (fst (handleSubmit awaitingRefetch)) = fst (handleSubmit awaitingRefetch)
   \<and> pendingMessage (fst (handleSubmit awaitingRefetch)) = Some (ascii ''two'')"
  using session_isolation [of 1 awaitingRefetch RefetchSettled "[]"]
  by (simp add: chat_eval)

lemma step_batched:
  assumes "batcherReady s" and "duringSession (currentSessionRef s) a"
  shows "batcherReady (step a s) \<and> currentSessionRef (step a s) = currentSessionRef s
         \<and> streamingResponse (step a s) @ pendingTokens (step a s)
           = streamingResponse s @ pendingTokens s @ tokensOf (currentSessionRef s) [a]"
proof (cases a)
  case (Callback j cb)
  show ?thesis
  proof (cases "j = currentSessionRef s")
    case True
    with assms Callback show ?thesis
      by (cases cb) (auto simp: batcherReady_def callback_defs addToken_def Let_def)
  next
    case False
    then have "runCallback j cb s = s" by (intro stale_callback) simp
    with False assms Callback show ?thesis by (cases cb) auto
  qed
qed (use assms in \<open>auto simp: batcherReady_def flush_def\<close>)

lemma tokensOf_Cons: "tokensOf k (a # as) = tokensOf k [a] @ tokensOf k as"
  by (induction k "a # as" rule: tokensOf.induct) auto

lemma steps_batched:
  assumes "batcherReady s" and "\<forall>a \<in> set acts. duringSession (currentSessionRef s) a"
  shows "batcherReady (steps acts s) \<and> currentSessionRef (steps acts s) = currentSessionRef s
         \<and> streamingResponse (steps acts s) @ pendingTokens (steps acts s)
           = streamingResponse s @ pendingTokens s @ tokensOf (currentSessionRef s) acts"
  using assms
proof (induction acts arbitrary: s)
  case Nil
  then show ?case by simp
next
  case (Cons a acts)
  have st: "batcherReady (step a s) \<and> currentSessionRef (step a s) = currentSessionRef s
         \<and> streamingResponse (step a s) @ pendingTokens (step a s)
           = streamingResponse s @ pendingTokens s @ tokensOf (currentSessionRef s) [a]"
    using step_batched [of s a] Cons.prems by simp
  then have "\<forall>b \<in> set acts. duringSession (currentSessionRef (step a s)) b"
    using Cons.prems by simp
  from Cons.IH [OF _ this] st
  show ?case
    by (simp add: tokensOf_Cons [of _ a acts])
qed

lemma flush_after_tokens:
  assumes "pendingTokens s = []" and "\<forall>a \<in> set acts. duringSession (currentSessionRef s) a"
  shows "streamingResponse (step AnimationFrame (steps acts s))
         = streamingResponse s @ tokensOf (currentSessionRef s) acts
         \<and> pendingTokens (step AnimationFrame (steps acts s)) = []"
proof -
  let ?t = "steps acts s"
  have rdy: "batcherReady s" using assms(1) by (simp add: batcherReady_def)
  have ready: "batcherReady ?t"
    and shown: "streamingResponse ?t @ pendingTokens ?t = streamingResponse s @ tokensOf (currentSessionRef s) acts"
    using steps_batched [OF rdy assms(2)] assms(1) by simp_all
  show ?thesis
  proof (cases "pendingTokens ?t = []")
    case True
    with shown show ?thesis by (simp add: flush_def)
  next
    case False
    with ready have "rafId ?t \<noteq> None" "setterRef ?t \<noteq> None" by (auto simp: batcherReady_def)
    with False shown show ?thesis by (simp add: flush_def)
  qed
qed

lemma handleSubmit_clears:
  assumes "\<not> (trim (message s) = [] \<or> streaming s)"
  shows "pendingTokens (fst (handleSubmit s)) = []"
    and "streamingResponse (fst (handleSubmit s)) = []"
    and "currentSessionRef (fst (handleSubmit s)) = Suc (streamSessionId s)"
  using assms by (simp_all add: handleSubmit_def reset_def Let_def)

text \<open>
  C2 (token ordering under batching), amended. Let \<^verbatim>\<open>handleSubmit\<close> accept a
  submission in any state, whatever an earlier session left displayed, pending
  or scheduled: it starts session \<open>Suc (streamSessionId s)\<close> with an empty
  display and, through \<^verbatim>\<open>reset()\<close>, an empty buffer. Then let any actions run
  that leave the response of the session on display: its token events,
  animation frames (each runs the flush if one is scheduled) in any number and
  at any places between them, status and progress events, callbacks of other
  sessions, edits of the input. After one more animation frame the displayed
  text is the tokens of the session in the order they were delivered, and
  nothing is left pending.
\<close>

theorem token_ordering:
  assumes "\<not> (trim (message s) = [] \<or> streaming s)"
    and "\<forall>a \<in> set acts. duringSession (Suc (streamSessionId s)) a"
  shows "streamingResponse (step AnimationFrame (steps acts (fst (handleSubmit s))))
         = tokensOf (Suc (streamSessionId s)) acts
         \<and> pendingTokens (step AnimationFrame (steps acts (fst (handleSubmit s)))) = []
         \<and> currentSessionRef (fst (handleSubmit s)) = Suc (streamSessionId s)"
  using flush_after_tokens [of "fst (handleSubmit s)" acts] handleSubmit_clears [OF assms(1)] assms(2)
  by simp

theorem token_ordering_witness:
  "\<not> (trim (message awaitingRefetch) = [] \<or> streaming awaitingRefetch)
   \<and> pendingTokens awaitingRefetch = ascii ''a''
   \<and> Suc (streamSessionId awaitingRefetch) = 2
   \<and> list_all (duringSession (Suc (streamSessionId awaitingRefetch)))
        [Callback 2 (TokenEvent (ascii ''Hel'')), Callback 2 (TokenEvent (ascii ''lo, '')),
         AnimationFrame, Callback 2 (TokenEvent (ascii ''wor'')), Callback 1 RefetchSettled,
         AnimationFrame, AnimationFrame, Callback 2 (TokenEvent (ascii ''ld'')),
         Callback 2 (StatusEvent (ascii ''generating'')), Callback 2 (TokenEvent (ascii ''!''))]
   \<and> streamingResponse (step AnimationFrame (steps
        [Callback 2 (TokenEvent (ascii ''Hel'')), Callback 2 (TokenEvent (ascii ''lo, '')),
         AnimationFrame, Callback 2 (TokenEvent (ascii ''wor'')), Callback 1 RefetchSettled,
         AnimationFrame, AnimationFrame, Callback 2 (TokenEvent (ascii ''ld'')),
         Callback 2 (StatusEvent (ascii ''generating'')), Callback 2 (TokenEvent (ascii ''!''))]
        (fst (handleSubmit awaitingRefetch))))
      = ascii ''Hello, world!''"
  using token_ordering [of awaitingRefetch
        "[Callback 2 (TokenEvent (ascii ''Hel'')), Callback 2 (TokenEvent (ascii ''lo, '')),
         AnimationFrame, Callback 2 (TokenEvent (ascii ''wor'')), Callback 1 RefetchSettled,
         AnimationFrame, AnimationFrame, Callback 2 (TokenEvent (ascii ''ld'')),
         Callback 2 (StatusEvent (ascii ''generating'')), Callback 2 (TokenEvent (ascii ''!''))]"]
  by (simp add: chat_eval)

text \<open>
  C2 as stated fails when a flush fires after a callback of the session has
  cleared the response: \<^verbatim>\<open>onComplete\<close> and \<^verbatim>\<open>onError\<close> clear it without
  \<^verbatim>\<open>reset()\<close>, and the flush still scheduled then shows the last batch alone.
\<close>

theorem token_ordering_counterexample:
  "tokensOf 1
     [Callback 1 (TokenEvent (ascii ''Hel'')), AnimationFrame, Callback 1 (TokenEvent (ascii ''lo'')),
      Callback 1 CompleteEvent, Callback 1 RefetchSettled] = ascii ''Hello''
   \<and> streamingResponse (step AnimationFrame (steps
       [Callback 1 (TokenEvent (ascii ''Hel'')), AnimationFrame, Callback 1 (TokenEvent (ascii ''lo'')),
        Callback 1 CompleteEvent, Callback 1 RefetchSettled]
       (fst (handleSubmit (initialChat\<lparr>message := ascii ''hi''\<rparr>))))) = ascii ''lo''
   \<and> streamingResponse (step AnimationFrame (steps
       [Callback 1 (TokenEvent (ascii ''Hel'')), AnimationFrame, Callback 1 (TokenEvent (ascii ''lo'')),
        Callback 1 (ErrorEvent (ascii ''boom''))]
       (fst (handleSubmit (initialChat\<lparr>message := ascii ''hi''\<rparr>))))) = ascii ''lo''"
  by (simp add: chat_eval)

lemma streaming_step:
  "streaming s \<Longrightarrow> a \<noteq> StreamSettled \<Longrightarrow>
   streaming (step a s) \<and> streamSessionId (step a s) = streamSessionId s
   \<and> currentSessionRef (step a s) = currentSessionRef s"
  apply (cases a)
      apply (simp_all add: handleSubmit_def flush_def)
  subgoal for k cb
    by (cases cb) (simp_all add: callback_defs addToken_def Let_def)
  done

lemma streaming_steps:
  "streaming s \<Longrightarrow> StreamSettled \<notin> set acts \<Longrightarrow>
   streaming (steps acts s) \<and> streamSessionId (steps acts s) = streamSessionId s
   \<and> currentSessionRef (steps acts s) = currentSessionRef s"
proof (induction acts arbitrary: s)
  case Nil
  then show ?case by simp
next
  case (Cons a acts)
  from Cons.prems have a: "a \<noteq> StreamSettled" and rest: "StreamSettled \<notin> set acts" by auto
  from streaming_step [OF Cons.prems(1) a] Cons.IH [of "step a s"] rest
  show ?case by simp
qed

text \<open>
  C10 (the guard of \<^verbatim>\<open>handleSubmit\<close>). With an input that trims to the empty
  string, or while a stream is in progress, \<^verbatim>\<open>handleSubmit\<close> returns the state
  it was given (session counter, batcher, displayed response and all) and calls
  nothing but \<^verbatim>\<open>preventDefault\<close>, so not \<^verbatim>\<open>streamMessage\<close>. Hence while a stream
  is in progress no action of the view short of the stream's end starts a
  session: the counter and the current session stay as they are.
\<close>

theorem handleSubmit_returns_early:
  "(trim (message s) = [] \<or> streaming s \<longrightarrow> handleSubmit s = (s, [PreventDefault]))
   \<and> (streaming s \<and> StreamSettled \<notin> set acts \<longrightarrow>
        streaming (steps acts s) \<and> streamSessionId (steps acts s) = streamSessionId s
        \<and> currentSessionRef (steps acts s) = currentSessionRef s)"
  using streaming_steps [of s acts] by (auto simp: handleSubmit_def)

theorem handleSubmit_returns_early_witness:
  "(trim (message (initialChat\<lparr>message := ascii '' '', streaming := True\<rparr>)) = []
    \<or> streaming (initialChat\<lparr>message := ascii '' '', streaming := True\<rparr>))
   \<and> handleSubmit (initialChat\<lparr>message := ascii '' '', streaming := True\<rparr>)
       = (initialChat\<lparr>message := ascii '' '', streaming := True\<rparr>, [PreventDefault])
   \<and> streaming (initialChat\<lparr>message := ascii '' '', streaming := True\<rparr>)
   \<and> StreamSettled \<notin> set [SetMessage (ascii ''again''), Submit]
   \<and> streamSessionId (steps [SetMessage (ascii ''again''), Submit]
        (initialChat\<lparr>message := ascii '' '', streaming := True\<rparr>)) = 0"
  using handleSubmit_returns_early
    [of "initialChat\<lparr>message := ascii '' '', streaming := True\<rparr>"
        "[SetMessage (ascii ''again''), Submit]"]
  by (simp add: chat_eval)

end
